theory Spec2Isabelle
  imports Main "HOL-Library.Multiset"
begin

section \<open>String operations of the source language\<close>

text \<open>
  Entry names and configuration values are strings over the code points 0 to 255. The
  Python string methods used by the sanitizer are written out here for that range.
\<close>

definition startswith :: "string \<Rightarrow> string \<Rightarrow> bool" where
  "startswith s p = (take (length p) s = p)"

definition endswith :: "string \<Rightarrow> string \<Rightarrow> bool" where
  "endswith s e = (length e \<le> length s \<and> drop (length s - length e) s = e)"

text \<open>\<^verbatim>\<open>sub in s\<close>: \<^verbatim>\<open>sub\<close> occurs somewhere in \<^verbatim>\<open>s\<close>.\<close>

fun contains_str :: "string \<Rightarrow> string \<Rightarrow> bool" where
  "contains_str sub [] = (sub = [])"
| "contains_str sub (c # cs) = (startswith (c # cs) sub \<or> contains_str sub cs)"

definition count_char :: "char \<Rightarrow> string \<Rightarrow> nat" where
  "count_char c s = length (filter (\<lambda>x. x = c) s)"

definition has_slash :: "string \<Rightarrow> bool" where
  "has_slash f = (CHR ''/'' \<in> set f)"

text \<open>\<^verbatim>\<open>f.split('/')[0]\<close>: the text before the first separator.\<close>

definition first_component :: "string \<Rightarrow> string" where
  "first_component f = takeWhile (\<lambda>c. c \<noteq> CHR ''/'') f"

text \<open>
  \<^verbatim>\<open>str.lower()\<close>: the letters A to Z and the capital letters from code point 192 to
  222, the multiplication sign 215 apart, move up by 32.
\<close>

definition lower_char :: "char \<Rightarrow> char" where
  "lower_char c =
     (let n = (of_char c :: nat)
      in if (65 \<le> n \<and> n \<le> 90) \<or> (192 \<le> n \<and> n \<le> 222 \<and> n \<noteq> 215)
         then char_of (n + 32) else c)"

definition lower :: "string \<Rightarrow> string" where
  "lower s = map lower_char s"

text \<open>\<^verbatim>\<open>s.rstrip(c)\<close> for a one-character argument.\<close>

definition rstrip :: "char \<Rightarrow> string \<Rightarrow> string" where
  "rstrip c s = rev (dropWhile (\<lambda>x. x = c) (rev s))"

text \<open>\<^verbatim>\<open>os.path.basename\<close> (POSIX): the text after the last separator.\<close>

definition basename :: "string \<Rightarrow> string" where
  "basename p = rev (takeWhile (\<lambda>c. c \<noteq> CHR ''/'') (rev p))"

definition isdigit :: "char \<Rightarrow> bool" where
  "isdigit c = (c \<in> set ''0123456789'')"

definition digit_val :: "char \<Rightarrow> int" where
  "digit_val c = int (of_char c) - 48"

text \<open>\<^verbatim>\<open>int(s)\<close> on a string of decimal digits.\<close>

definition int_of_digits :: "string \<Rightarrow> int" where
  "int_of_digits ds = foldl (\<lambda>a c. 10 * a + digit_val c) 0 ds"

text \<open>Decimal digits of a natural number, and the format \<^verbatim>\<open>{n:05d}\<close>.\<close>

definition digit_char :: "nat \<Rightarrow> char" where
  "digit_char d = ''0123456789'' ! (d mod 10)"

fun digits_of :: "nat \<Rightarrow> string" where
  "digits_of n = (if n < 10 then [digit_char n] else digits_of (n div 10) @ [digit_char n])"

declare digits_of.simps [simp del]

definition zfill :: "nat \<Rightarrow> string \<Rightarrow> string" where
  "zfill w s = replicate (w - length s) (CHR ''0'') @ s"

definition fmt_05d :: "int \<Rightarrow> string" where
  "fmt_05d n =
     (if n < 0 then CHR ''-'' # zfill 4 (digits_of (nat (- n)))
      else zfill 5 (digits_of (nat n)))"

section \<open>The layer-image file name pattern\<close>

text \<open>
  The source applies three regular expressions that differ only in their groups:
  \<^verbatim>\<open>(.+?)(\d{5})\.(png|jpg|jpeg)$\<close>, searched with \<^verbatim>\<open>re.IGNORECASE\<close>. The end anchor
  also matches before one final newline. The extension and the five digits are fixed
  by the end of the string; the lazy prefix must be one or more characters other than
  a newline, and the search takes the leftmost start, which is the position after the
  last newline in front of the digits. Among the code points 0 to 255 the class
  \<^verbatim>\<open>\d\<close> holds the ten digits 0 to 9, and no other character matches a letter of
  the extensions when case is ignored.
\<close>

definition match_ext :: "string \<Rightarrow> nat option" where
  "match_ext s =
     (if endswith (lower s) ''.png'' \<or> endswith (lower s) ''.jpg'' then Some 4
      else if endswith (lower s) ''.jpeg'' then Some 5
      else None)"

definition name_pattern :: "string \<Rightarrow> (string \<times> string \<times> string) option" where
  "name_pattern filename =
     (let s = (if filename \<noteq> [] \<and> last filename = CHR 0x0A then butlast filename
               else filename)
      in case match_ext s of
           None \<Rightarrow> None
         | Some k \<Rightarrow>
             (let stem = take (length s - k) s;
                  ext = drop (length s - k + 1) s;
                  digits = drop (length stem - 5) stem;
                  pre = take (length stem - 5) stem;
                  base = rev (takeWhile (\<lambda>c. c \<noteq> CHR 0x0A) (rev pre))
              in if 5 \<le> length stem \<and> list_all isdigit digits \<and> base \<noteq> []
                 then Some (base, digits, ext)
                 else None))"

section \<open>Messages, exceptions and the file behind the path\<close>

datatype py_exn =
    BadZipFile
  | OSError string
  | OpenError string
  | ReadError string
  | MissingSectionHeaderError
  | DuplicateSectionError string
  | DuplicateOptionError string string
  | ParsingError
  | InterpolationDepthError
  | InterpolationSyntaxError
  | InterpolationMissingOptionError string
  | NoSectionError string
  | NoOptionError string string
  | KeyError string

text \<open>
  One constructor for every message the sanitizer appends; the arguments are the
  values formatted into the text.
\<close>

datatype message =
    FileNotFound string
  | EmptyOrNested
  | SubfolderWarning string
  | NotValidZip
  | ErrorReadingZip py_exn
  | RequiredFileMissing string
  | ErrorCheckingRequired py_exn
  | ConfigNotFound
  | ErrorReadingConfig py_exn
  | NoLayerImages
  | PatternMismatch string
  | MultipleBaseNames "string list"
  | MissingNumbers "int list"
  | NotStartAtZero string
  | OutOfRange int
  | ErrorCheckingImages py_exn
  | BaseNameMismatch string string
  | NumFastCountMismatch int nat
  | LastNumberMismatch int int
  | NumFastNotInteger
  | ErrorCheckingConsistency py_exn

text \<open>
  The text of a configuration entry is taken as its sequence of logical lines: a
  section header, an option with its (stripped, joined) value, or a line that is
  neither. Comment stripping, blank lines, continuation lines and the split at the
  delimiter are the work of the library's lexer.
\<close>

datatype ini_line = Header string | Option string string | Malformed string

record archive =
  namelist :: "string list"
  read_text :: "string \<Rightarrow> py_exn + ini_line list"

text \<open>
  What stands behind the path. \<^verbatim>\<open>Path.exists()\<close> returns false (\<open>NoFile\<close>, which covers
  the errors it absorbs: not found, not a directory, bad descriptor, symlink loop, and
  a path that cannot be encoded), or it raises the operating-system error of the
  \<^verbatim>\<open>stat\<close> call (\<open>StatFails\<close>: a name that is too long, a directory that may not be
  searched), or it returns true. In the last case opening the file as a ZIP archive
  raises (\<open>OpenFails\<close>) or gives the archive.
\<close>

datatype file_state = NoFile | StatFails py_exn | OpenFails py_exn | Archive archive

text \<open>
  An archive whose readable entries are listed with their text; opening any other name
  raises \<^verbatim>\<open>KeyError\<close>.
\<close>

definition text_of :: "(string \<times> ini_line list) list \<Rightarrow> string \<Rightarrow> py_exn + ini_line list" where
  "text_of files name =
     (case map_of files name of None \<Rightarrow> Inl (KeyError name) | Some content \<Rightarrow> Inr content)"

text \<open>\<^verbatim>\<open>zipfile.ZipFile(path, 'r')\<close>\<close>

definition open_zip :: "file_state \<Rightarrow> py_exn + archive" where
  "open_zip fs =
     (case fs of
        NoFile \<Rightarrow> Inl (OpenError ''FileNotFoundError'')
      | StatFails e \<Rightarrow> Inl e
      | OpenFails e \<Rightarrow> Inl e
      | Archive a \<Rightarrow> Inr a)"

section \<open>The configuration parser of the standard library\<close>

text \<open>
  \<^verbatim>\<open>configparser.ConfigParser\<close> with its default settings (strict, no valueless
  options, default section \<^verbatim>\<open>DEFAULT\<close>, option names lower-cased, basic interpolation),
  restricted to the operations the sanitizer calls. Both dictionaries keep insertion
  order, so they are association lists.
\<close>

record config_parser =
  cp_defaults :: "(string \<times> string) list"
  cp_sections :: "(string \<times> (string \<times> string) list) list"

definition new_parser :: config_parser where
  "new_parser = \<lparr>cp_defaults = [], cp_sections = []\<rparr>"

fun dict_set :: "'k \<Rightarrow> 'v \<Rightarrow> ('k \<times> 'v) list \<Rightarrow> ('k \<times> 'v) list" where
  "dict_set k v [] = [(k, v)]"
| "dict_set k v ((k', v') # ps) =
     (if k = k' then (k, v) # ps else (k', v') # dict_set k v ps)"

definition default_section :: string where
  "default_section = ''DEFAULT''"

definition optionxform :: "string \<Rightarrow> string" where
  "optionxform optionstr = lower optionstr"

text \<open>\<^verbatim>\<open>cursect[optname] = [optval]\<close>, where \<^verbatim>\<open>cursect\<close> is the dictionary of \<open>sectname\<close>.\<close>

definition set_option :: "string \<Rightarrow> string \<Rightarrow> string \<Rightarrow> config_parser \<Rightarrow> config_parser" where
  "set_option sectname optname optval cp =
     (if sectname = default_section
      then cp\<lparr>cp_defaults := dict_set optname optval (cp_defaults cp)\<rparr>
      else cp\<lparr>cp_sections :=
                map (\<lambda>(n, opts). if n = sectname then (n, dict_set optname optval opts)
                                  else (n, opts))
                  (cp_sections cp)\<rparr>)"

text \<open>
  The loop of \<^verbatim>\<open>_read\<close> over the logical lines. The state is the current section name
  (\<open>None\<close> before any header), the sections and the options added by this read, and
  whether a parsing error has been recorded. A duplicate or a missing header raises at
  once; a recorded parsing error is raised after the last line. In both cases the
  parser keeps what was stored.
\<close>

fun read_lines ::
  "ini_line list \<Rightarrow> string option \<Rightarrow> string list \<Rightarrow> (string \<times> string) list \<Rightarrow> bool \<Rightarrow>
     config_parser \<Rightarrow> py_exn option \<times> config_parser" where
  "read_lines [] cursect added_sects added_opts e cp =
     (if e then (Some ParsingError, cp) else (None, cp))"
| "read_lines (Header sectname # rest) cursect added_sects added_opts e cp =
     (if sectname \<in> set (map fst (cp_sections cp)) then
        (if sectname \<in> set added_sects then (Some (DuplicateSectionError sectname), cp)
         else read_lines rest (Some sectname) (sectname # added_sects) added_opts e cp)
      else if sectname = default_section then
        read_lines rest (Some sectname) added_sects added_opts e cp
      else
        read_lines rest (Some sectname) (sectname # added_sects) added_opts e
          (cp\<lparr>cp_sections := cp_sections cp @ [(sectname, [])]\<rparr>))"
| "read_lines (Option name val # rest) cursect added_sects added_opts e cp =
     (case cursect of
        None \<Rightarrow> (Some MissingSectionHeaderError, cp)
      | Some sectname \<Rightarrow>
          (let e' = (e \<or> name = []);
               optname = optionxform name
           in if (sectname, optname) \<in> set added_opts
              then (Some (DuplicateOptionError sectname optname), cp)
              else read_lines rest cursect added_sects ((sectname, optname) # added_opts) e'
                     (set_option sectname optname val cp)))"
| "read_lines (Malformed line # rest) cursect added_sects added_opts e cp =
     (case cursect of
        None \<Rightarrow> (Some MissingSectionHeaderError, cp)
      | Some sectname \<Rightarrow> read_lines rest cursect added_sects added_opts True cp)"

text \<open>\<^verbatim>\<open>read_string\<close> on a parser object: the exception raised, if any, and the parser.\<close>

definition read_string :: "config_parser \<Rightarrow> ini_line list \<Rightarrow> py_exn option \<times> config_parser" where
  "read_string cp content = read_lines content None [] [] False cp"

definition sections :: "config_parser \<Rightarrow> string list" where
  "sections cp = map fst (cp_sections cp)"

definition has_section :: "config_parser \<Rightarrow> string \<Rightarrow> bool" where
  "has_section cp section = (section \<in> set (map fst (cp_sections cp)))"

text \<open>\<^verbatim>\<open>__len__\<close>, which decides the truth value of a parser object.\<close>

definition cp_len :: "config_parser \<Rightarrow> nat" where
  "cp_len cp = length (cp_sections cp) + 1"

definition has_option :: "config_parser \<Rightarrow> string \<Rightarrow> string \<Rightarrow> bool" where
  "has_option cp section option =
     (if section = [] \<or> section = default_section
      then optionxform option \<in> set (map fst (cp_defaults cp))
      else (case map_of (cp_sections cp) section of
              None \<Rightarrow> False
            | Some opts \<Rightarrow> optionxform option \<in> set (map fst opts)
                           \<or> optionxform option \<in> set (map fst (cp_defaults cp))))"

text \<open>The chain of the section's dictionary and the defaults, as \<^verbatim>\<open>_unify_values\<close> builds it.\<close>

definition unify_values :: "config_parser \<Rightarrow> string \<Rightarrow> (string \<Rightarrow> string option) option" where
  "unify_values cp section =
     (case map_of (cp_sections cp) section of
        Some opts \<Rightarrow>
          Some (\<lambda>k. case map_of opts k of Some v \<Rightarrow> Some v | None \<Rightarrow> map_of (cp_defaults cp) k)
      | None \<Rightarrow>
          (if section \<noteq> default_section then None
           else Some (map_of (cp_defaults cp))))"

text \<open>
  \<^verbatim>\<open>_KEYCRE = %\(([^)]+)\)s\<close> matched at the start of a string that begins with a
  percent sign: the variable name and the text after the reference.
\<close>

definition key_match :: "string \<Rightarrow> (string \<times> string) option" where
  "key_match r =
     (let xs = drop 2 r;
          var = takeWhile (\<lambda>c. c \<noteq> CHR '')'') xs;
          after = dropWhile (\<lambda>c. c \<noteq> CHR '')'') xs
      in if take 2 r = ''%('' \<and> var \<noteq> [] \<and> take 2 after = '')s''
         then Some (var, drop 2 after) else None)"

definition MAX_INTERPOLATION_DEPTH :: nat where
  "MAX_INTERPOLATION_DEPTH = 10"

lemma key_match_shorter: "key_match r = Some (var, rest') \<Longrightarrow> length rest' < length r"
proof -
  assume a: "key_match r = Some (var, rest')"
  have "length (dropWhile (\<lambda>c. c \<noteq> CHR '')'') (drop 2 r)) \<le> length (drop 2 r)"
    by (rule length_dropWhile_le)
  moreover from a have "take 2 r = ''%(''"
    by (auto simp: key_match_def Let_def split: if_splits)
  then have "2 \<le> length r"
    by (cases r; cases "tl r") auto
  moreover from a have "rest' = drop 2 (dropWhile (\<lambda>c. c \<noteq> CHR '')'') (drop 2 r))"
    by (auto simp: key_match_def Let_def split: if_splits)
  ultimately show ?thesis by simp
qed

text \<open>
  \<^verbatim>\<open>BasicInterpolation._interpolate_some\<close>, returning the text it accumulates. \<open>m\<close> is
  the chained dictionary. The depth test of the recursive call is made at the call.
\<close>

function interpolate_loop :: "(string \<Rightarrow> string option) \<Rightarrow> nat \<Rightarrow> string \<Rightarrow> py_exn + string" where
  "interpolate_loop m depth rest =
     (if rest = [] then Inr []
      else if CHR ''%'' \<notin> set rest then Inr rest
      else
        (let pre = takeWhile (\<lambda>c. c \<noteq> CHR ''%'') rest;
             r = dropWhile (\<lambda>c. c \<noteq> CHR ''%'') rest;
             c = take 1 (drop 1 r)
         in if c = ''%'' then
              (case interpolate_loop m depth (drop 2 r) of
                 Inl ex \<Rightarrow> Inl ex
               | Inr t \<Rightarrow> Inr (pre @ ''%'' @ t))
            else if c = ''('' then
              (case key_match r of
                 None \<Rightarrow> Inl InterpolationSyntaxError
               | Some (name, rest') \<Rightarrow>
                   (case m (optionxform name) of
                      None \<Rightarrow> Inl (InterpolationMissingOptionError (optionxform name))
                    | Some v \<Rightarrow>
                        (case (if CHR ''%'' \<in> set v then
                                 (if depth + 1 > MAX_INTERPOLATION_DEPTH
                                  then Inl InterpolationDepthError
                                  else interpolate_loop m (depth + 1) v)
                               else Inr v) of
                           Inl ex \<Rightarrow> Inl ex
                         | Inr t1 \<Rightarrow>
                             (case interpolate_loop m depth rest' of
                                Inl ex \<Rightarrow> Inl ex
                              | Inr t2 \<Rightarrow> Inr (pre @ t1 @ t2)))))
            else Inl InterpolationSyntaxError))"
  by pat_completeness auto
termination
proof (relation "measures [\<lambda>(m, depth, rest). MAX_INTERPOLATION_DEPTH + 1 - depth,
                            \<lambda>(m, depth, rest). length rest]", goal_cases)
  case 1
  show ?case by simp
next
  case (2 m depth rest pre r c)
  have "length r \<le> length rest"
    using 2 by (simp add: length_dropWhile_le)
  moreover have "r \<noteq> []"
    using 2 by auto
  ultimately show ?case by (cases r) auto
next
  case (3 m depth rest pre r c x2 name rest' v)
  then have "depth < MAX_INTERPOLATION_DEPTH" by simp
  then show ?case by auto
next
  case (4 m depth rest pre r c x2 name rest' v)
  have "length r \<le> length rest"
    using 4 by (simp add: length_dropWhile_le)
  moreover have "length rest' < length r"
    using 4 key_match_shorter by metis
  ultimately show ?case by simp
qed

declare interpolate_loop.simps [simp del]

definition before_get :: "(string \<Rightarrow> string option) \<Rightarrow> string \<Rightarrow> py_exn + string" where
  "before_get m val =
     (if 1 > MAX_INTERPOLATION_DEPTH then Inl InterpolationDepthError
      else interpolate_loop m 1 val)"

text \<open>\<^verbatim>\<open>ConfigParser.get(section, option)\<close>\<close>

definition cp_get :: "config_parser \<Rightarrow> string \<Rightarrow> string \<Rightarrow> py_exn + string" where
  "cp_get cp section option =
     (case unify_values cp section of
        None \<Rightarrow> Inl (NoSectionError section)
      | Some d \<Rightarrow>
          (case d (optionxform option) of
             None \<Rightarrow> Inl (NoOptionError (optionxform option) section)
           | Some val \<Rightarrow> before_get d val))"

text \<open>\<^verbatim>\<open>key in config[section]\<close> and \<^verbatim>\<open>config[section][key]\<close> on the section proxy.\<close>

definition section_contains :: "config_parser \<Rightarrow> string \<Rightarrow> string \<Rightarrow> bool" where
  "section_contains cp name key = has_option cp name key"

definition section_getitem :: "config_parser \<Rightarrow> string \<Rightarrow> string \<Rightarrow> py_exn + string" where
  "section_getitem cp name key =
     (if \<not> has_option cp name key then Inl (KeyError key) else cp_get cp name key)"

section \<open>The sanitizer object\<close>

record sanitizer =
  sl1s_file_path :: string
  errors :: "message list"
  warnings :: "message list"
  image_files :: "string list"
  config :: "config_parser option"

definition init :: "string \<Rightarrow> sanitizer" where
  "init path =
     \<lparr>sl1s_file_path = path, errors = [], warnings = [], image_files = [], config = None\<rparr>"

definition add_error :: "sanitizer \<Rightarrow> message \<Rightarrow> sanitizer" where
  "add_error st m = st\<lparr>errors := errors st @ [m]\<rparr>"

definition add_warning :: "sanitizer \<Rightarrow> message \<Rightarrow> sanitizer" where
  "add_warning st m = st\<lparr>warnings := warnings st @ [m]\<rparr>"

text \<open>
  A Python \<^verbatim>\<open>set\<close> of strings is kept as the list of its distinct elements. The order
  in which such a set is iterated or printed comes from the string hashes, which
  differ from one interpreter process to the next; it is the parameter \<open>set_iter\<close> of
  the two stages that iterate a set.
\<close>

definition py_set :: "'a list \<Rightarrow> 'a list" where
  "py_set xs = remdups xs"

definition set_add :: "'a \<Rightarrow> 'a list \<Rightarrow> 'a list" where
  "set_add x xs = (if x \<in> set xs then xs else xs @ [x])"

section \<open>Stage: file exists\<close>

text \<open>
  The call of \<^verbatim>\<open>exists()\<close> stands under no handler, here or in the callers: the error it
  raises ends the run.
\<close>

definition check_file_exists :: "file_state \<Rightarrow> sanitizer \<Rightarrow> py_exn + sanitizer" where
  "check_file_exists fs st =
     (case fs of
        NoFile \<Rightarrow> Inr (add_error st (FileNotFound (sl1s_file_path st)))
      | StatFails e \<Rightarrow> Inl e
      | _ \<Rightarrow> Inr st)"

section \<open>Stage: archive structure\<close>

definition is_thumbnail_or_preview_file :: "string \<Rightarrow> bool" where
  "is_thumbnail_or_preview_file file_path =
     (startswith file_path ''thumbnail/'' \<or> startswith file_path ''preview/'')"

definition in_subfolder :: "string \<Rightarrow> bool" where
  "in_subfolder f = (has_slash f \<and> \<not> is_thumbnail_or_preview_file f)"

definition root_files :: "string list \<Rightarrow> string list" where
  "root_files file_list =
     filter (\<lambda>f. \<not> has_slash f \<or> count_char (CHR ''/'') f = 1) file_list"

definition folders :: "string list \<Rightarrow> string list" where
  "folders file_list = py_set (map first_component (filter in_subfolder file_list))"

definition check_zip_structure ::
  "(string list \<Rightarrow> string list) \<Rightarrow> file_state \<Rightarrow> sanitizer \<Rightarrow> sanitizer" where
  "check_zip_structure set_iter fs st =
     (case open_zip fs of
        Inl BadZipFile \<Rightarrow> add_error st NotValidZip
      | Inl e \<Rightarrow> add_error st (ErrorReadingZip e)
      | Inr zip_ref \<Rightarrow>
          (let file_list = namelist zip_ref
           in if root_files file_list = [] then add_error st EmptyOrNested
              else if list_ex in_subfolder file_list then
                (if folders file_list \<noteq> [] then
                   foldl (\<lambda>s folder_name. add_warning s (SubfolderWarning folder_name))
                     st (set_iter (folders file_list))
                 else st)
              else st))"

section \<open>Stage: required files\<close>

definition required_files :: "string list" where
  "required_files = [''config.ini'', ''prusaslicer.ini'']"

definition found_required :: "string list \<Rightarrow> string \<Rightarrow> bool" where
  "found_required file_list required_file =
     list_ex (\<lambda>f. contains_str required_file f \<and> endswith f required_file
                   \<and> \<not> startswith f ''thumbnail/'') file_list"

definition check_required_files :: "file_state \<Rightarrow> sanitizer \<Rightarrow> sanitizer" where
  "check_required_files fs st =
     (case open_zip fs of
        Inl e \<Rightarrow> add_error st (ErrorCheckingRequired e)
      | Inr zip_ref \<Rightarrow>
          foldl (\<lambda>s required_file.
                   if \<not> found_required (namelist zip_ref) required_file
                   then add_error s (RequiredFileMissing required_file) else s)
            st required_files)"

section \<open>Stage: reading the configuration\<close>

definition is_config_file :: "string \<Rightarrow> bool" where
  "is_config_file f = (endswith f ''config.ini'' \<and> \<not> startswith f ''thumbnail/'')"

text \<open>
  The parser object is assigned to \<^verbatim>\<open>self.config\<close> before \<^verbatim>\<open>read_string\<close> runs, so it
  stays there, with what it stored, when the read raises.
\<close>

definition extract_config :: "file_state \<Rightarrow> sanitizer \<Rightarrow> sanitizer" where
  "extract_config fs st =
     (case open_zip fs of
        Inl e \<Rightarrow> add_error st (ErrorReadingConfig e)
      | Inr zip_ref \<Rightarrow>
          (case filter is_config_file (namelist zip_ref) of
             [] \<Rightarrow> add_error st ConfigNotFound
           | config_file # _ \<Rightarrow>
               (case read_text zip_ref config_file of
                  Inl e \<Rightarrow> add_error st (ErrorReadingConfig e)
                | Inr config_content \<Rightarrow>
                    (case read_string new_parser config_content of
                       (None, cp) \<Rightarrow> st\<lparr>config := Some cp\<rparr>
                     | (Some MissingSectionHeaderError, cp) \<Rightarrow>
                         (case read_string new_parser
                                 (Header ''DEFAULT'' # config_content) of
                            (None, cp') \<Rightarrow> st\<lparr>config := Some cp'\<rparr>
                          | (Some e, cp') \<Rightarrow>
                              add_error (st\<lparr>config := Some cp'\<rparr>) (ErrorReadingConfig e))
                     | (Some e, cp) \<Rightarrow>
                         add_error (st\<lparr>config := Some cp\<rparr>) (ErrorReadingConfig e)))))"

section \<open>Configuration lookup\<close>

fun lookup_any_section :: "config_parser \<Rightarrow> string \<Rightarrow> string list \<Rightarrow> py_exn + string option" where
  "lookup_any_section cp key [] = Inr None"
| "lookup_any_section cp key (sec # secs) =
     (if section_contains cp sec key then map_sum id Some (section_getitem cp sec key)
      else lookup_any_section cp key secs)"

text \<open>
  \<^verbatim>\<open>_get_config_value\<close> with the default \<^verbatim>\<open>None\<close>. \<^verbatim>\<open>not self.config\<close> holds for \<^verbatim>\<open>None\<close>
  and for an object of length zero.
\<close>

definition get_config_value :: "config_parser option \<Rightarrow> string \<Rightarrow> string \<Rightarrow> py_exn + string option" where
  "get_config_value cfg section key =
     (case cfg of
        None \<Rightarrow> Inr None
      | Some cp \<Rightarrow>
          if cp_len cp = 0 then Inr None
          else if has_section cp section \<and> section_contains cp section key
            then map_sum id Some (section_getitem cp section key)
          else if has_section cp ''DEFAULT'' \<and> section_contains cp ''DEFAULT'' key
            then map_sum id Some (section_getitem cp ''DEFAULT'' key)
          else lookup_any_section cp key (sections cp))"

section \<open>Stage: layer images\<close>

definition is_layer_image :: "string \<Rightarrow> bool" where
  "is_layer_image file_path =
     ((endswith (lower file_path) ''.png'' \<or> endswith (lower file_path) ''.jpg''
        \<or> endswith (lower file_path) ''.jpeg'')
      \<and> \<not> is_thumbnail_or_preview_file file_path
      \<and> \<not> has_slash file_path)"

text \<open>
  The loop over the image files: the errors it appends, the set of base names and the
  list of numbers.
\<close>

fun scan_images ::
  "string list \<Rightarrow> message list \<Rightarrow> string list \<Rightarrow> int list \<Rightarrow>
     message list \<times> string list \<times> int list" where
  "scan_images [] errs base_names numbers = (errs, base_names, numbers)"
| "scan_images (img_file # rest) errs base_names numbers =
     (case name_pattern (basename img_file) of
        None \<Rightarrow> scan_images rest (errs @ [PatternMismatch img_file]) base_names numbers
      | Some (base_name, number_str, ext) \<Rightarrow>
          scan_images rest errs (set_add base_name base_names)
            (numbers @ [int_of_digits number_str]))"

definition expected_sequence :: "int list \<Rightarrow> int list" where
  "expected_sequence numbers =
     (case numbers of
        [] \<Rightarrow> []
      | n0 # _ \<Rightarrow> [n0 .. n0 + int (length numbers) - 1])"

definition missing_numbers :: "int list \<Rightarrow> int list" where
  "missing_numbers numbers =
     filter (\<lambda>x. x \<notin> set numbers) (py_set (expected_sequence numbers))"

definition check_numbering :: "int list \<Rightarrow> sanitizer \<Rightarrow> sanitizer" where
  "check_numbering numbers0 st =
     (case sort numbers0 of
        [] \<Rightarrow> st
      | n0 # ns \<Rightarrow>
          (let numbers = n0 # ns;
               st1 = (if numbers \<noteq> expected_sequence numbers then
                        (if missing_numbers numbers \<noteq> [] then
                           add_error st (MissingNumbers (sort (missing_numbers numbers)))
                         else st)
                      else st);
               st2 = (if n0 \<noteq> 0 then add_warning st1 (NotStartAtZero (fmt_05d n0)) else st1)
           in foldl (\<lambda>s num. if num < 0 \<or> num > 99999 then add_error s (OutOfRange num) else s)
                st2 numbers))"

definition check_image_files ::
  "(string list \<Rightarrow> string list) \<Rightarrow> file_state \<Rightarrow> sanitizer \<Rightarrow> sanitizer" where
  "check_image_files set_iter fs st =
     (case open_zip fs of
        Inl e \<Rightarrow> add_error st (ErrorCheckingImages e)
      | Inr zip_ref \<Rightarrow>
          (let imgs = filter is_layer_image (namelist zip_ref);
               st1 = st\<lparr>image_files := imgs\<rparr>
           in if imgs = [] then add_warning st1 NoLayerImages
              else
                (case scan_images imgs (errors st1) [] [] of
                   (errs, base_names, numbers) \<Rightarrow>
                     (let st2 = st1\<lparr>errors := errs\<rparr>;
                          st3 = (if length base_names > 1
                                 then add_error st2 (MultipleBaseNames (set_iter base_names))
                                 else st2)
                      in check_numbering numbers st3))))"

section \<open>Stage: consistency of configuration and images\<close>

text \<open>The white space that \<^verbatim>\<open>int()\<close> skips at both ends.\<close>

definition isspace :: "char \<Rightarrow> bool" where
  "isspace c =
     (c \<in> set [CHR '' '', CHR 0x09, CHR 0x0A, CHR 0x0B, CHR 0x0C, CHR 0x0D, CHR 0x85, CHR 0xA0])"

definition strip :: "string \<Rightarrow> string" where
  "strip s = rev (dropWhile isspace (rev (dropWhile isspace s)))"

text \<open>Decimal digits in groups separated by single underscores.\<close>

fun digit_groups :: "string \<Rightarrow> bool" where
  "digit_groups [] = False"
| "digit_groups [c] = isdigit c"
| "digit_groups (c # d # cs) =
     (isdigit c \<and> (if d = CHR ''_'' then digit_groups cs else digit_groups (d # cs)))"

text \<open>
  \<^verbatim>\<open>int(s)\<close> in base ten: white space at both ends, one optional sign, then decimal
  digits in groups separated by single underscores. \<open>None\<close> is \<^verbatim>\<open>ValueError\<close>. The
  interpreter refuses more than 4300 digits.
\<close>

definition py_int :: "string \<Rightarrow> int option" where
  "py_int s =
     (let t = strip s;
          neg = (take 1 t = ''-'');
          body = (if take 1 t = ''-'' \<or> take 1 t = ''+'' then drop 1 t else t);
          ds = filter isdigit body
      in if digit_groups body \<and> length ds \<le> 4300
         then Some (if neg then - int_of_digits ds else int_of_digits ds)
         else None)"

definition strip_separators :: "string \<Rightarrow> string" where
  "strip_separators s = rstrip (CHR ''-'') (rstrip (CHR ''_'') s)"

definition check_job_dir :: "string option \<Rightarrow> sanitizer \<Rightarrow> sanitizer" where
  "check_job_dir job_dir st =
     (case job_dir of
        None \<Rightarrow> st
      | Some jd \<Rightarrow>
          if jd = [] then st
          else (case image_files st of
                  [] \<Rightarrow> st
                | first_image # _ \<Rightarrow>
                    (case name_pattern (basename first_image) of
                       None \<Rightarrow> st
                     | Some (g1, g2, g3) \<Rightarrow>
                         (let image_base = strip_separators g1;
                              config_base = strip_separators jd
                          in if image_base \<noteq> config_base
                             then add_error st (BaseNameMismatch image_base config_base)
                             else st))))"

definition image_numbers :: "string list \<Rightarrow> int list" where
  "image_numbers imgs =
     concat (map (\<lambda>img_file. case name_pattern (basename img_file) of
                               None \<Rightarrow> []
                             | Some (g1, g2, g3) \<Rightarrow> [int_of_digits g2]) imgs)"

definition check_num_fast :: "string option \<Rightarrow> sanitizer \<Rightarrow> sanitizer" where
  "check_num_fast num_fast_str st =
     (case num_fast_str of
        None \<Rightarrow> st
      | Some s \<Rightarrow>
          if s = [] then st
          else (case py_int s of
                  None \<Rightarrow> add_error st NumFastNotInteger
                | Some num_fast \<Rightarrow>
                    (let image_count = length (image_files st);
                         st1 = (if num_fast \<noteq> int image_count
                                then add_error st (NumFastCountMismatch num_fast image_count)
                                else st)
                     in if image_files st \<noteq> [] then
                          (case image_numbers (image_files st) of
                             [] \<Rightarrow> st1
                           | n # ns \<Rightarrow>
                               (let max_number = Max (set (n # ns))
                                in if max_number \<noteq> num_fast - 1
                                   then add_error st1 (LastNumberMismatch max_number (num_fast - 1))
                                   else st1))
                        else st1)))"

definition check_config_consistency :: "sanitizer \<Rightarrow> sanitizer" where
  "check_config_consistency st =
     (case config st of
        None \<Rightarrow> st
      | Some cp \<Rightarrow>
          if cp_len cp = 0 then st
          else (case get_config_value (config st) ''layerRenderParams'' ''jobDir'' of
                  Inl e \<Rightarrow> add_error st (ErrorCheckingConsistency e)
                | Inr job_dir \<Rightarrow>
                    (let st1 = check_job_dir job_dir st
                     in case get_config_value (config st1) ''layerRenderParams'' ''numFast'' of
                          Inl e \<Rightarrow> add_error st1 (ErrorCheckingConsistency e)
                        | Inr num_fast_str \<Rightarrow> check_num_fast num_fast_str st1)))"

section \<open>The validation run\<close>

definition generate_report :: "sanitizer \<Rightarrow> bool" where
  "generate_report st = (errors st = [])"

text \<open>
  The run gives the state from which the report is printed, or the exception that
  leaves it. Writing to the console is not part of the model.
\<close>

definition validate_sl1s_file ::
  "(string list \<Rightarrow> string list) \<Rightarrow> string \<Rightarrow> file_state \<Rightarrow> py_exn + sanitizer" where
  "validate_sl1s_file set_iter path fs =
     (case check_file_exists fs (init path) of
        Inl e \<Rightarrow> Inl e
      | Inr st0 \<Rightarrow>
          if errors st0 \<noteq> [] then Inr st0
          else
            (let st1 = check_zip_structure set_iter fs st0;
                 st2 = check_required_files fs st1;
                 st3 = extract_config fs st2;
                 st4 = check_image_files set_iter fs st3
             in Inr (check_config_consistency st4)))"

section \<open>Notions used in the statements\<close>

text \<open>
  An iteration order of sets returns the elements it is given, each once, in some
  order.
\<close>

definition iteration_order :: "(string list \<Rightarrow> string list) \<Rightarrow> bool" where
  "iteration_order set_iter = (\<forall>xs. mset (set_iter xs) = mset xs)"

text \<open>An entry name with two or more separators.\<close>

definition deeply_nested :: "string \<Rightarrow> bool" where
  "deeply_nested f = (2 \<le> count_char (CHR ''/'') f)"

text \<open>The errors of the loop over the image files, its base names and its set of base names.\<close>

definition pattern_errors :: "string list \<Rightarrow> message list" where
  "pattern_errors imgs =
     map PatternMismatch (filter (\<lambda>f. name_pattern (basename f) = None) imgs)"

definition image_bases :: "string list \<Rightarrow> string list" where
  "image_bases imgs =
     concat (map (\<lambda>img_file. case name_pattern (basename img_file) of
                               None \<Rightarrow> []
                             | Some (g1, g2, g3) \<Rightarrow> [g1]) imgs)"

definition base_name_set :: "string list \<Rightarrow> string list" where
  "base_name_set imgs = foldl (\<lambda>names x. set_add x names) [] (image_bases imgs)"

text \<open>The test of the five-digit range.\<close>

definition out_of_range :: "int \<Rightarrow> bool" where
  "out_of_range num = (num < 0 \<or> num > 99999)"

text \<open>The errors and the warnings of the numbering check, as lists.\<close>

definition numbering_errors :: "int list \<Rightarrow> message list" where
  "numbering_errors nums =
     (if nums = [] then []
      else (if sort nums \<noteq> expected_sequence (sort nums) \<and> missing_numbers (sort nums) \<noteq> []
            then [MissingNumbers (sort (missing_numbers (sort nums)))] else [])
           @ map OutOfRange (filter out_of_range (sort nums)))"

definition numbering_warnings :: "int list \<Rightarrow> message list" where
  "numbering_warnings nums =
     (if nums \<noteq> [] \<and> hd (sort nums) \<noteq> 0
      then [NotStartAtZero (fmt_05d (hd (sort nums)))] else [])"

text \<open>Recognises the missing-numbers error.\<close>

definition is_missing_numbers :: "message \<Rightarrow> bool" where
  "is_missing_numbers m = (case m of MissingNumbers xs \<Rightarrow> True | _ \<Rightarrow> False)"


text \<open>Recognises the error of the job-name check.\<close>

definition is_base_name_mismatch :: "message \<Rightarrow> bool" where
  "is_base_name_mismatch m = (case m of BaseNameMismatch x y \<Rightarrow> True | _ \<Rightarrow> False)"

text \<open>The errors of the job-name check and of the layer-count check, as lists.\<close>

definition job_dir_errors :: "string option \<Rightarrow> string list \<Rightarrow> message list" where
  "job_dir_errors job_dir imgs =
     (case job_dir of
        None \<Rightarrow> []
      | Some jd \<Rightarrow>
          if jd = [] then []
          else (case imgs of
                  [] \<Rightarrow> []
                | first_image # _ \<Rightarrow>
                    (case name_pattern (basename first_image) of
                       None \<Rightarrow> []
                     | Some (g1, g2, g3) \<Rightarrow>
                         if strip_separators g1 \<noteq> strip_separators jd
                         then [BaseNameMismatch (strip_separators g1) (strip_separators jd)]
                         else [])))"

definition num_fast_errors :: "string option \<Rightarrow> string list \<Rightarrow> message list" where
  "num_fast_errors num_fast_str imgs =
     (case num_fast_str of
        None \<Rightarrow> []
      | Some s \<Rightarrow>
          if s = [] then []
          else (case py_int s of
                  None \<Rightarrow> [NumFastNotInteger]
                | Some num_fast \<Rightarrow>
                    (if num_fast \<noteq> int (length imgs)
                     then [NumFastCountMismatch num_fast (length imgs)] else [])
                    @ (if image_numbers imgs \<noteq> []
                          \<and> Max (set (image_numbers imgs)) \<noteq> num_fast - 1
                       then [LastNumberMismatch (Max (set (image_numbers imgs))) (num_fast - 1)]
                       else [])))"


text \<open>
  Two messages are the same up to the order of a set when they are equal, or both list the same base names in some order.
\<close>

definition same_up_to_order :: "message \<Rightarrow> message \<Rightarrow> bool" where
  "same_up_to_order m m' =
     (m = m' \<or> (\<exists>xs ys. m = MultipleBaseNames xs \<and> m' = MultipleBaseNames ys
                          \<and> mset xs = mset ys))"

text \<open>
  Two final states agree up to the order of sets: the errors agree position by position, the warnings are equal after a first run of subfolder warnings that may be permuted, and the other fields are equal.
\<close>

definition agree :: "sanitizer \<Rightarrow> sanitizer \<Rightarrow> bool" where
  "agree s1 s2 =
     (list_all2 same_up_to_order (errors s1) (errors s2)
      \<and> (\<exists>w1 w2 rest. warnings s1 = map SubfolderWarning w1 @ rest
                       \<and> warnings s2 = map SubfolderWarning w2 @ rest
                       \<and> mset w1 = mset w2)
      \<and> image_files s1 = image_files s2
      \<and> config s1 = config s2
      \<and> sl1s_file_path s1 = sl1s_file_path s2)"

section \<open>Basic facts about the state\<close>

lemma add_error_simps [simp]:
  "errors (add_error st m) = errors st @ [m]"
  "warnings (add_error st m) = warnings st"
  "image_files (add_error st m) = image_files st"
  "config (add_error st m) = config st"
  "sl1s_file_path (add_error st m) = sl1s_file_path st"
  by (simp_all add: add_error_def)

lemma add_warning_simps [simp]:
  "errors (add_warning st m) = errors st"
  "warnings (add_warning st m) = warnings st @ [m]"
  "image_files (add_warning st m) = image_files st"
  "config (add_warning st m) = config st"
  "sl1s_file_path (add_warning st m) = sl1s_file_path st"
  by (simp_all add: add_warning_def)

lemma open_zip_simps [simp]:
  "open_zip NoFile = Inl (OpenError ''FileNotFoundError'')"
  "open_zip (StatFails e) = Inl e"
  "open_zip (OpenFails e) = Inl e"
  "open_zip (Archive a) = Inr a"
  by (simp_all add: open_zip_def)

section \<open>A file that is missing or cannot be opened\<close>

lemma check_zip_structure_fails:
  "check_zip_structure set_iter (OpenFails e) st =
     add_error st (if e = BadZipFile then NotValidZip else ErrorReadingZip e)"
  by (cases e) (simp_all add: check_zip_structure_def)

text \<open>
  Claim C1, as amended. When the existence test of the path returns false, the run
  gives exactly one error and ends there: the result is the initial state with that
  error. When the test returns true and the file cannot be opened as an archive, the
  run does not end early: each of the four stages that open the archive appends its
  own error, so there are four errors and no warning, and the consistency stage
  appends nothing.
\<close>

theorem unopenable_file_errors:
  "validate_sl1s_file set_iter path NoFile = Inr (add_error (init path) (FileNotFound path))
   \<and> map_sum id errors (validate_sl1s_file set_iter path (OpenFails e)) =
       Inr [if e = BadZipFile then NotValidZip else ErrorReadingZip e,
            ErrorCheckingRequired e, ErrorReadingConfig e, ErrorCheckingImages e]
   \<and> map_sum id warnings (validate_sl1s_file set_iter path (OpenFails e)) = Inr []"
proof (intro conjI)
  show "validate_sl1s_file set_iter path NoFile
      = Inr (add_error (init path) (FileNotFound path))"
    by (simp add: validate_sl1s_file_def check_file_exists_def init_def)
next
  have ex: "check_file_exists (OpenFails e) (init path) = Inr (init path)"
    by (simp add: check_file_exists_def)
  have cfg: "config (init path) = None" "errors (init path) = []" "warnings (init path) = []"
    by (simp_all add: init_def)
  show "map_sum id errors (validate_sl1s_file set_iter path (OpenFails e)) =
       Inr [if e = BadZipFile then NotValidZip else ErrorReadingZip e,
            ErrorCheckingRequired e, ErrorReadingConfig e, ErrorCheckingImages e]"
    by (simp add: validate_sl1s_file_def ex cfg Let_def check_zip_structure_fails
        check_required_files_def extract_config_def check_image_files_def
        check_config_consistency_def)
  show "map_sum id warnings (validate_sl1s_file set_iter path (OpenFails e)) = Inr []"
    by (simp add: validate_sl1s_file_def ex cfg Let_def check_zip_structure_fails
        check_required_files_def extract_config_def check_image_files_def
        check_config_consistency_def)
qed

theorem unopenable_file_errors_witness:
  "validate_sl1s_file rev ''missing.sl1s'' NoFile
     = Inr (add_error (init ''missing.sl1s'') (FileNotFound ''missing.sl1s''))
   \<and> map_sum id errors (validate_sl1s_file rev ''missing.sl1s''
         (OpenFails (OpenError ''IsADirectoryError''))) =
       Inr [ErrorReadingZip (OpenError ''IsADirectoryError''),
            ErrorCheckingRequired (OpenError ''IsADirectoryError''),
            ErrorReadingConfig (OpenError ''IsADirectoryError''),
            ErrorCheckingImages (OpenError ''IsADirectoryError'')]
   \<and> map_sum id warnings (validate_sl1s_file rev ''missing.sl1s''
         (OpenFails (OpenError ''IsADirectoryError''))) = Inr []"
  using unopenable_file_errors [of rev "''missing.sl1s''" "OpenError ''IsADirectoryError''"]
  by simp

text \<open>
  Claim C1 as stated fails for a file that is not a ZIP archive: the run reports four
  errors, not one.
\<close>

theorem not_a_zip_counterexample:
  "map_sum id errors (validate_sl1s_file id ''job.sl1s'' (OpenFails BadZipFile)) =
     Inr [NotValidZip, ErrorCheckingRequired BadZipFile, ErrorReadingConfig BadZipFile,
          ErrorCheckingImages BadZipFile]"
  by code_simp

text \<open>
  When the existence test itself raises, no stage runs and no report is made: the
  error leaves the run.
\<close>

lemma stat_failure_propagates:
  "validate_sl1s_file set_iter path (StatFails e) = Inl e"
  by (simp add: validate_sl1s_file_def check_file_exists_def)

section \<open>Lookup in a configuration without section headers\<close>

text \<open>
  Claim C2 at a failing input. The same option is written once under a section header
  and once bare. The sectioned text is found by the lookup. The bare text is parsed on
  the retry into the defaults of the parser, which has no section; the lookup's second
  tier asks \<^verbatim>\<open>has_section('DEFAULT')\<close>, which never holds, and the third tier visits
  no section, so the lookup returns the not-found default.
\<close>

theorem bare_config_lookup_not_found:
  "get_config_value
     (config (extract_config
        (Archive \<lparr>namelist = [''config.ini''],
                  read_text = text_of [(''config.ini'',
                    [Header ''layerRenderParams'', Option ''jobDir'' ''foo''])]\<rparr>)
        (init ''job.sl1s'')))
     ''layerRenderParams'' ''jobDir'' = Inr (Some ''foo'')
   \<and> get_config_value
     (config (extract_config
        (Archive \<lparr>namelist = [''config.ini''],
                  read_text = text_of [(''config.ini'', [Option ''jobDir'' ''foo''])]\<rparr>)
        (init ''job.sl1s'')))
     ''layerRenderParams'' ''jobDir'' = Inr None
   \<and> config (extract_config
        (Archive \<lparr>namelist = [''config.ini''],
                  read_text = text_of [(''config.ini'', [Option ''jobDir'' ''foo''])]\<rparr>)
        (init ''job.sl1s''))
     = Some \<lparr>cp_defaults = [(''jobdir'', ''foo'')], cp_sections = []\<rparr>"
  by code_simp

section \<open>A configuration that fails to parse\<close>

text \<open>
  Claim C4 at a failing input. The third line of the configuration has no delimiter,
  so the read raises a parsing error (not a missing section header) and the stage
  records it. The parser object was assigned before the read and keeps the section it
  stored; it is not empty, the consistency stage runs on it and appends a second
  error.
\<close>

theorem failed_parse_keeps_config:
  "map_sum id errors (validate_sl1s_file id ''job.sl1s''
      (Archive \<lparr>namelist = [''config.ini'', ''prusaslicer.ini''],
                read_text = text_of [(''config.ini'',
                  [Header ''layerRenderParams'', Option ''numFast'' ''7'',
                   Malformed ''no delimiter here''])]\<rparr>))
     = Inr [ErrorReadingConfig ParsingError, NumFastCountMismatch 7 0]
   \<and> map_sum id config (validate_sl1s_file id ''job.sl1s''
      (Archive \<lparr>namelist = [''config.ini'', ''prusaslicer.ini''],
                read_text = text_of [(''config.ini'',
                  [Header ''layerRenderParams'', Option ''numFast'' ''7'',
                   Malformed ''no delimiter here''])]\<rparr>))
     = Inr (Some \<lparr>cp_defaults = [],
                   cp_sections = [(''layerRenderParams'', [(''numfast'', ''7'')])]\<rparr>)"
  by code_simp

section \<open>The archive structure stage\<close>

lemma has_slash_count: "has_slash f \<longleftrightarrow> 1 \<le> count_char (CHR ''/'') f"
proof -
  have "CHR ''/'' \<in> set f \<longleftrightarrow> filter (\<lambda>x. x = CHR ''/'') f \<noteq> []"
    by (simp add: filter_empty_conv)
  then show ?thesis
    by (simp add: has_slash_def count_char_def Suc_le_eq)
qed

lemma root_files_empty: "root_files file_list = [] \<longleftrightarrow> list_all deeply_nested file_list"
proof -
  have "(\<not> (\<not> has_slash f \<or> count_char (CHR ''/'') f = 1)) = deeply_nested f" for f
    unfolding has_slash_count deeply_nested_def by arith
  then show ?thesis
    by (simp add: root_files_def filter_empty_conv list_all_iff)
qed

lemma foldl_add_warning:
  "foldl (\<lambda>s x. add_warning s (W x)) st xs = st\<lparr>warnings := warnings st @ map W xs\<rparr>"
  by (induction xs arbitrary: st) (simp_all add: add_warning_def)

lemma foldl_add_warning_fields [simp]:
  "errors (foldl (\<lambda>s x. add_warning s (W x)) st xs) = errors st"
  "warnings (foldl (\<lambda>s x. add_warning s (W x)) st xs) = warnings st @ map W xs"
  "image_files (foldl (\<lambda>s x. add_warning s (W x)) st xs) = image_files st"
  "config (foldl (\<lambda>s x. add_warning s (W x)) st xs) = config st"
  "sl1s_file_path (foldl (\<lambda>s x. add_warning s (W x)) st xs) = sl1s_file_path st"
  by (simp_all add: foldl_add_warning)

lemma mset_folders:
  "mset (folders file_list) = mset_set (first_component ` {f \<in> set file_list. in_subfolder f})"
proof -
  have "mset (remdups xs) = mset_set (set xs)" for xs :: "string list"
    using mset_set_set [of "remdups xs"] by simp
  moreover have "set (map first_component (filter in_subfolder file_list)) =
      first_component ` {f \<in> set file_list. in_subfolder f}"
    by auto
  ultimately show ?thesis
    unfolding folders_def py_set_def by metis
qed

lemma folders_empty: "\<not> list_ex in_subfolder file_list \<Longrightarrow> {f \<in> set file_list. in_subfolder f} = {}"
  by (auto simp: list_ex_iff)

lemma folders_nonempty: "list_ex in_subfolder file_list \<Longrightarrow> folders file_list \<noteq> []"
  by (auto simp: folders_def py_set_def list_ex_iff filter_empty_conv)

lemma check_zip_structure_archive:
  "check_zip_structure set_iter (Archive a) st =
     (if list_all deeply_nested (namelist a) then add_error st EmptyOrNested
      else if list_ex in_subfolder (namelist a)
        then st\<lparr>warnings := warnings st @ map SubfolderWarning (set_iter (folders (namelist a)))\<rparr>
      else st)"
  by (simp add: check_zip_structure_def Let_def root_files_empty folders_nonempty
      foldl_add_warning)

lemma folders_set:
  "distinct (folders file_list)
   \<and> set (folders file_list) = first_component ` {f \<in> set file_list. in_subfolder f}"
  by (auto simp: folders_def py_set_def)

text \<open>
  Claim C3, as amended. For an archive that opens, the fatal error of this stage is
  appended exactly when every entry name has two or more separators (which includes
  the empty listing); the reserved prefixes play no part in that test, and no warning
  is appended then. Otherwise no error is appended, and the warnings appended are one
  for each distinct first path component of the entries that contain a separator and
  do not start with \<^verbatim>\<open>thumbnail/\<close> or \<^verbatim>\<open>preview/\<close>, in the iteration order of the set.
\<close>

theorem zip_structure_outcome:
  assumes "iteration_order set_iter"
  shows "errors (check_zip_structure set_iter (Archive a) st) =
           errors st @ (if list_all deeply_nested (namelist a) then [EmptyOrNested] else [])
       \<and> mset (warnings (check_zip_structure set_iter (Archive a) st)) =
           mset (warnings st) +
           (if list_all deeply_nested (namelist a) then {#}
            else image_mset SubfolderWarning (mset (folders (namelist a))))
       \<and> distinct (folders (namelist a))
       \<and> set (folders (namelist a)) = first_component ` {f \<in> set (namelist a). in_subfolder f}"
proof -
  have perm: "mset (set_iter (folders (namelist a))) = mset (folders (namelist a))"
    using assms by (simp add: iteration_order_def)
  have w: "mset (map SubfolderWarning (set_iter (folders (namelist a)))) =
        image_mset SubfolderWarning (mset (folders (namelist a)))"
    unfolding mset_map perm ..
  have none: "folders (namelist a) = []" if "\<not> list_ex in_subfolder (namelist a)"
    using that by (auto simp: folders_def py_set_def list_ex_iff filter_empty_conv)
  show ?thesis
    using w none by (simp add: check_zip_structure_archive folders_set)
qed

theorem zip_structure_outcome_witness:
  "iteration_order rev
   \<and> errors (check_zip_structure rev
        (Archive \<lparr>namelist = [''job/a00000.png'', ''config.ini'', ''other/notes.txt'',
                               ''job/a00001.png'', ''thumbnail/t.png''],
                  read_text = text_of []\<rparr>) (init ''job.sl1s'')) = []
   \<and> mset (warnings (check_zip_structure rev
        (Archive \<lparr>namelist = [''job/a00000.png'', ''config.ini'', ''other/notes.txt'',
                               ''job/a00001.png'', ''thumbnail/t.png''],
                  read_text = text_of []\<rparr>) (init ''job.sl1s'')))
       = {#SubfolderWarning ''job'', SubfolderWarning ''other''#}"
proof -
  have h: "iteration_order rev"
    by (simp add: iteration_order_def)
  show ?thesis
    using h zip_structure_outcome [OF h,
        of "\<lparr>namelist = [''job/a00000.png'', ''config.ini'', ''other/notes.txt'',
                         ''job/a00001.png'', ''thumbnail/t.png''],
            read_text = text_of []\<rparr>" "init ''job.sl1s''"]
    by (simp add: init_def deeply_nested_def count_char_def folders_def py_set_def
        in_subfolder_def has_slash_def is_thumbnail_or_preview_file_def startswith_def
        first_component_def)
qed

text \<open>
  Claim C3 as stated fails in both directions: a listing with nothing outside the
  reserved prefixes gets no fatal error, and a listing whose only entry is a
  non-reserved file two folders deep gets the fatal error and no warning.
\<close>

theorem zip_structure_counterexample:
  "list_all is_thumbnail_or_preview_file [''thumbnail/thumb.png'']
   \<and> errors (check_zip_structure id
        (Archive \<lparr>namelist = [''thumbnail/thumb.png''], read_text = text_of []\<rparr>)
        (init ''job.sl1s'')) = []
   \<and> in_subfolder ''job/layers/a00000.png''
   \<and> errors (check_zip_structure id
        (Archive \<lparr>namelist = [''job/layers/a00000.png''], read_text = text_of []\<rparr>)
        (init ''job.sl1s'')) = [EmptyOrNested]
   \<and> warnings (check_zip_structure id
        (Archive \<lparr>namelist = [''job/layers/a00000.png''], read_text = text_of []\<rparr>)
        (init ''job.sl1s'')) = []"
  by code_simp

section \<open>The layer image stage\<close>

lemma scan_images_eq:
  "scan_images imgs errs names nums =
     (errs @ pattern_errors imgs,
      foldl (\<lambda>names x. set_add x names) names (image_bases imgs),
      nums @ image_numbers imgs)"
  by (induction imgs arbitrary: errs names nums)
     (auto simp: pattern_errors_def image_bases_def image_numbers_def split: option.splits)

lemma foldl_out_of_range:
  "foldl (\<lambda>s num. if num < 0 \<or> num > 99999 then add_error s (OutOfRange num) else s) st nums
     = st\<lparr>errors := errors st @ map OutOfRange (filter out_of_range nums)\<rparr>"
  by (induction nums arbitrary: st) (simp_all add: add_error_def out_of_range_def)

lemma sort_Nil_iff: "sort nums = [] \<longleftrightarrow> nums = []"
  by (metis length_0_conv length_sort)

lemma check_numbering_eq:
  "check_numbering nums st =
     st\<lparr>errors := errors st @ numbering_errors nums,
        warnings := warnings st @ numbering_warnings nums\<rparr>"
proof (cases "sort nums")
  case Nil
  then show ?thesis
    by (simp add: check_numbering_def numbering_errors_def numbering_warnings_def sort_Nil_iff)
next
  case (Cons n0 ns)
  then have "nums \<noteq> []" by auto
  then show ?thesis
    using Cons
    by (simp add: check_numbering_def numbering_errors_def numbering_warnings_def Let_def
        foldl_out_of_range add_error_def add_warning_def)
qed

lemma check_image_files_archive:
  "check_image_files set_iter (Archive a) st =
     (let imgs = filter is_layer_image (namelist a)
      in if imgs = [] then st\<lparr>image_files := [], warnings := warnings st @ [NoLayerImages]\<rparr>
         else st\<lparr>image_files := imgs,
                 errors := errors st @ pattern_errors imgs
                   @ (if length (base_name_set imgs) > 1
                      then [MultipleBaseNames (set_iter (base_name_set imgs))] else [])
                   @ numbering_errors (image_numbers imgs),
                 warnings := warnings st @ numbering_warnings (image_numbers imgs)\<rparr>)"
  by (simp add: check_image_files_def Let_def scan_images_eq check_numbering_eq
      base_name_set_def add_error_def add_warning_def)

lemma name_pattern_SomeD:
  assumes "name_pattern filename = Some (b, d, e)"
  shows "length d = 5" and "list_all isdigit d" and "b \<noteq> []"
  using assms
  by (auto simp: name_pattern_def Let_def split: option.splits if_splits)

lemma isdigit_val: "isdigit c \<Longrightarrow> 0 \<le> digit_val c \<and> digit_val c \<le> 9"
  by (auto simp: isdigit_def digit_val_def)

lemma int_of_digits_snoc: "int_of_digits (ds @ [c]) = 10 * int_of_digits ds + digit_val c"
  by (simp add: int_of_digits_def)

lemma int_of_digits_bounds:
  "list_all isdigit ds \<Longrightarrow> 0 \<le> int_of_digits ds \<and> int_of_digits ds < 10 ^ length ds"
proof (induction ds rule: rev_induct)
  case Nil
  then show ?case by (simp add: int_of_digits_def)
next
  case (snoc c ds)
  then have "0 \<le> int_of_digits ds" "int_of_digits ds < 10 ^ length ds"
    and "0 \<le> digit_val c" "digit_val c \<le> 9"
    using isdigit_val by auto
  then show ?case
    by (simp add: int_of_digits_snoc)
qed

lemma image_numbers_range:
  "n \<in> set (image_numbers imgs) \<Longrightarrow> 0 \<le> n \<and> n \<le> 99999"
proof -
  assume "n \<in> set (image_numbers imgs)"
  then obtain f g1 g2 g3 where "name_pattern (basename f) = Some (g1, g2, g3)"
    and n: "n = int_of_digits g2"
    by (auto simp: image_numbers_def split: option.splits) metis
  then have "length g2 = 5" "list_all isdigit g2"
    using name_pattern_SomeD by blast+
  then show ?thesis
    using int_of_digits_bounds [of g2] n by simp
qed

lemma hd_sort_Min: "nums \<noteq> [] \<Longrightarrow> hd (sort nums) = Min (set nums)"
proof -
  assume ne: "nums \<noteq> []"
  then obtain x xs where s: "sort nums = x # xs"
    by (cases "sort nums") (auto simp: sort_Nil_iff)
  have "sorted (x # xs)" "set (x # xs) = set nums"
    using s by (metis sorted_sort, metis set_sort)
  then have "Min (set nums) = x"
    by (intro Min_eqI) auto
  then show ?thesis using s by simp
qed

lemma sorted_run:
  fixes s :: "int list"
  assumes "sorted s" and "s \<noteq> []" and "{hd s .. hd s + int (length s) - 1} \<subseteq> set s"
  shows "s = [hd s .. hd s + int (length s) - 1]"
proof -
  let ?run = "{hd s .. hd s + int (length s) - 1}"
  have c: "card ?run = length s" by simp
  have "card (set s) \<le> length s" by (rule card_length)
  moreover have "card ?run \<le> card (set s)"
    using assms(3) by (intro card_mono) auto
  ultimately have cs: "card (set s) = length s" using c by simp
  then have d: "distinct s" by (simp add: card_distinct)
  have "?run = set s"
    using assms(3) c cs by (intro card_subset_eq) auto
  then have "set s = set [hd s .. hd s + int (length s) - 1]" by simp
  then show ?thesis
    using assms(1) d by (intro sorted_distinct_set_unique) auto
qed

lemma expected_sequence_hd:
  "s \<noteq> [] \<Longrightarrow> expected_sequence s = [hd s .. hd s + int (length s) - 1]"
  by (cases s) (simp_all add: expected_sequence_def)

lemma missing_numbers_set:
  "s \<noteq> [] \<Longrightarrow> set (missing_numbers s) = {hd s .. hd s + int (length s) - 1} - set s"
  by (auto simp: missing_numbers_def py_set_def expected_sequence_hd)

lemma missing_numbers_distinct: "distinct (missing_numbers s)"
  by (simp add: missing_numbers_def py_set_def)

lemma sort_missing_numbers:
  assumes "nums \<noteq> []"
  shows "sort (missing_numbers (sort nums)) =
         sorted_list_of_set ({Min (set nums) .. Min (set nums) + int (length nums) - 1} - set nums)"
proof -
  have ne: "sort nums \<noteq> []" using assms by (simp add: sort_Nil_iff)
  have "sorted_list_of_set (set (missing_numbers (sort nums))) = sort (missing_numbers (sort nums))"
    using missing_numbers_distinct [of "sort nums"]
    by (simp add: sorted_list_of_set_sort_remdups distinct_remdups_id)
  then show ?thesis
    using missing_numbers_set [OF ne] hd_sort_Min [OF assms] by simp
qed

lemma gap_gives_missing:
  assumes "nums \<noteq> []" and "sort nums \<noteq> expected_sequence (sort nums)"
  shows "missing_numbers (sort nums) \<noteq> []"
proof
  assume e: "missing_numbers (sort nums) = []"
  have ne: "sort nums \<noteq> []" using assms(1) by (simp add: sort_Nil_iff)
  have "{hd (sort nums) .. hd (sort nums) + int (length (sort nums)) - 1} \<subseteq> set (sort nums)"
    using missing_numbers_set [OF ne] e by auto
  then have "sort nums = [hd (sort nums) .. hd (sort nums) + int (length (sort nums)) - 1]"
    using ne by (intro sorted_run) auto
  then show False
    using assms(2) expected_sequence_hd [OF ne] by simp
qed

lemma filter_missing_simps [simp]:
  "filter is_missing_numbers (pattern_errors imgs) = []"
  "filter is_missing_numbers (map OutOfRange xs) = []"
  "is_missing_numbers (MissingNumbers ys)"
  "\<not> is_missing_numbers (MultipleBaseNames zs)"
  by (simp_all add: is_missing_numbers_def pattern_errors_def filter_empty_conv)

text \<open>
  Claim C5. Let the numbers be the indices of the layer images that match the name
  pattern, and suppose there is at least one and that the sorted numbers differ from
  the run that starts at their minimum and has as many elements. Then, among the
  errors the image stage appends, exactly one is a missing-numbers error, and its
  list is the run minus the observed numbers, sorted ascending.
\<close>

theorem missing_numbers_error:
  assumes "nums = image_numbers (filter is_layer_image (namelist a))"
      and "nums \<noteq> []"
      and "sort nums \<noteq> [Min (set nums) .. Min (set nums) + int (length nums) - 1]"
  shows "\<exists>new. errors (check_image_files set_iter (Archive a) st) = errors st @ new
           \<and> filter is_missing_numbers new =
               [MissingNumbers (sorted_list_of_set
                  ({Min (set nums) .. Min (set nums) + int (length nums) - 1} - set nums))]"
proof -
  let ?imgs = "filter is_layer_image (namelist a)"
  have imgs: "?imgs \<noteq> []"
  proof
    assume "?imgs = []"
    then have "image_numbers ?imgs = []" by (simp add: image_numbers_def)
    then show False using assms(1,2) by simp
  qed
  have ne: "sort nums \<noteq> []" using assms(2) by (simp add: sort_Nil_iff)
  have gap: "sort nums \<noteq> expected_sequence (sort nums)"
    using assms(3) expected_sequence_hd [OF ne] hd_sort_Min [OF assms(2)] by simp
  have ne_errs: "numbering_errors nums =
      MissingNumbers (sort (missing_numbers (sort nums)))
        # map OutOfRange (filter out_of_range (sort nums))"
    using assms(2) gap gap_gives_missing [OF assms(2) gap]
    by (simp add: numbering_errors_def)
  let ?new = "pattern_errors ?imgs
       @ (if length (base_name_set ?imgs) > 1
          then [MultipleBaseNames (set_iter (base_name_set ?imgs))] else [])
       @ numbering_errors nums"
  have "errors (check_image_files set_iter (Archive a) st) = errors st @ ?new"
    using imgs assms(1) by (simp add: check_image_files_archive Let_def)
  moreover have "filter is_missing_numbers ?new =
      [MissingNumbers (sort (missing_numbers (sort nums)))]"
    by (simp add: ne_errs)
  ultimately show ?thesis
    using sort_missing_numbers [OF assms(2)] by metis
qed

theorem missing_numbers_error_witness:
  "image_numbers (filter is_layer_image [''config.ini'', ''a00005.png'', ''a00000.png'', ''a00002.png''])
     = [5, 0, 2]
   \<and> sort [5, 0, 2 :: int] = [0, 2, 5]
   \<and> filter is_missing_numbers (errors (check_image_files id
        (Archive \<lparr>namelist = [''config.ini'', ''a00005.png'', ''a00000.png'', ''a00002.png''],
                  read_text = text_of []\<rparr>) (init ''job.sl1s''))) = [MissingNumbers [1]]"
proof -
  let ?A = "\<lparr>namelist = [''config.ini'', ''a00005.png'', ''a00000.png'', ''a00002.png''],
              read_text = text_of []\<rparr>"
  have n: "[5, 0, 2] = image_numbers (filter is_layer_image (namelist ?A))"
    by code_simp
  have h2: "[5, 0, 2 :: int] \<noteq> []" by simp
  have m: "Min (set [5, 0, 2 :: int]) = 0" by simp
  have s: "sort [5, 0, 2 :: int] = [0, 2, 5]" by code_simp
  have h3: "sort [5, 0, 2 :: int]
      \<noteq> [Min (set [5, 0, 2]) .. Min (set [5, 0, 2]) + int (length [5, 0, 2 :: int]) - 1]"
    unfolding m s by (simp add: upto.simps)
  have d: "sorted_list_of_set
      ({Min (set [5, 0, 2 :: int]) .. Min (set [5, 0, 2]) + int (length [5, 0, 2 :: int]) - 1}
        - set [5, 0, 2]) = [1]"
    unfolding m by code_simp
  from missing_numbers_error [OF n h2 h3, of id "init ''job.sl1s''"] d
  have "filter is_missing_numbers (errors (check_image_files id (Archive ?A) (init ''job.sl1s'')))
      = [MissingNumbers [1]]"
    by (auto simp: init_def)
  then show ?thesis
    using n s by simp
qed

section \<open>Five-digit numbers and contiguous sequences\<close>

lemma digit_char_props:
  "isdigit (digit_char n) \<and> digit_val (digit_char n) = int (n mod 10)"
proof -
  have "n mod 10 < 10" by simp
  then consider "n mod 10 = 0" | "n mod 10 = 1" | "n mod 10 = 2" | "n mod 10 = 3"
    | "n mod 10 = 4" | "n mod 10 = 5" | "n mod 10 = 6" | "n mod 10 = 7"
    | "n mod 10 = 8" | "n mod 10 = 9"
    by atomize_elim arith
  then show ?thesis
    by cases (simp_all add: digit_char_def isdigit_def digit_val_def)
qed

lemma digits_of_isdigit: "list_all isdigit (digits_of n)"
  by (induction n rule: digits_of.induct)
     (subst digits_of.simps, simp add: digit_char_props)

lemma digits_of_value: "int_of_digits (digits_of n) = int n"
proof (induction n rule: digits_of.induct)
  case (1 n)
  show ?case
  proof (cases "n < 10")
    case True
    then show ?thesis
      by (subst digits_of.simps) (simp add: int_of_digits_def digit_char_props)
  next
    case False
    then have "int_of_digits (digits_of (n div 10)) = int (n div 10)"
      using 1 by simp
    then show ?thesis
      using False
      by (subst digits_of.simps) (simp add: int_of_digits_snoc digit_char_props zdiv_int zmod_int)
  qed
qed

lemma digits_of_length: "n < 10 ^ w \<Longrightarrow> 0 < w \<Longrightarrow> length (digits_of n) \<le> w"
proof (induction n arbitrary: w rule: digits_of.induct)
  case (1 n)
  show ?case
  proof (cases "n < 10")
    case True
    then show ?thesis
      using 1(3) by (subst digits_of.simps) simp
  next
    case False
    then obtain v where w: "w = Suc v" "0 < v"
      using 1(2,3) by (cases w; cases "w - 1") auto
    then have "n div 10 < 10 ^ v"
      using 1(2) by (simp add: less_mult_imp_div_less mult.commute)
    then have "length (digits_of (n div 10)) \<le> v"
      using 1(1) False w by simp
    then show ?thesis
      using False w by (subst digits_of.simps) simp
  qed
qed

lemma int_of_digits_zeros: "int_of_digits (replicate m (CHR ''0'') @ s) = int_of_digits s"
proof -
  have "foldl (\<lambda>a c. 10 * a + digit_val c) 0 (replicate m (CHR ''0'')) = 0"
    by (induction m) (simp_all add: digit_val_def)
  then show ?thesis
    by (simp add: int_of_digits_def)
qed

lemma fmt_05d_props:
  assumes "0 \<le> k" and "k \<le> 99999"
  shows "length (fmt_05d k) = 5 \<and> list_all isdigit (fmt_05d k) \<and> int_of_digits (fmt_05d k) = k"
proof -
  have "nat k < 10 ^ 5" using assms by simp
  then have len: "length (digits_of (nat k)) \<le> 5"
    by (intro digits_of_length) auto
  have "isdigit (CHR ''0'')" by (simp add: isdigit_def)
  then show ?thesis
    using assms len digits_of_isdigit [of "nat k"] digits_of_value [of "nat k"]
    by (auto simp: fmt_05d_def zfill_def int_of_digits_zeros list_all_iff)
qed


lemma all_match_facts:
  assumes "\<forall>f \<in> set imgs. \<exists>d e. name_pattern (basename f) = Some (b, d, e)"
  shows "pattern_errors imgs = []"
    and "length (image_numbers imgs) = length imgs"
    and "image_bases imgs = replicate (length imgs) b"
  using assms
  by (induction imgs)
     (auto simp: pattern_errors_def image_numbers_def image_bases_def)

lemma foldl_set_add_same:
  "foldl (\<lambda>names x. set_add x names) [b] (replicate n b) = [b]"
  by (induction n) (simp_all add: set_add_def)

lemma base_name_set_single:
  assumes "image_bases imgs = replicate (length imgs) b"
  shows "length (base_name_set imgs) \<le> 1"
proof (cases "length imgs")
  case 0
  then show ?thesis using assms by (simp add: base_name_set_def)
next
  case (Suc n)
  have "foldl (\<lambda>names x. set_add x names) [] (replicate (Suc n) b)
      = foldl (\<lambda>names x. set_add x names) [b] (replicate n b)"
    by (simp add: set_add_def)
  then show ?thesis
    using assms Suc by (simp only: base_name_set_def foldl_set_add_same) simp
qed

lemma sort_of_run:
  fixes nums :: "int list"
  assumes "set nums = {k .. k + int (length nums) - 1}"
  shows "sort nums = [k .. k + int (length nums) - 1]"
proof -
  have "card (set nums) = length nums"
    using assms by simp
  then have "distinct nums" by (simp add: card_distinct)
  then have "distinct (sort nums)" by simp
  moreover have "set (sort nums) = set [k .. k + int (length nums) - 1]"
    using assms by simp
  ultimately show ?thesis
    by (intro sorted_distinct_set_unique) auto
qed

text \<open>
  Claim C8. Let the layer images be non-empty, let every one match the name pattern
  with the same base name, and let their indices be exactly the run of as many
  numbers starting at \<open>k\<close>. Then the image stage appends no error at all. It appends
  no warning when \<open>k\<close> is zero, and exactly the one warning that the numbering does not
  start at zero otherwise; the start index in it is written with five decimal digits
  and reads back as \<open>k\<close>.
\<close>

theorem contiguous_sequence:
  assumes "imgs = filter is_layer_image (namelist a)"
      and "imgs \<noteq> []"
      and "\<forall>f \<in> set imgs. \<exists>d e. name_pattern (basename f) = Some (b, d, e)"
      and "set (image_numbers imgs) = {k .. k + int (length imgs) - 1}"
  shows "errors (check_image_files set_iter (Archive a) st) = errors st
       \<and> warnings (check_image_files set_iter (Archive a) st) =
           warnings st @ (if k = 0 then [] else [NotStartAtZero (fmt_05d k)])
       \<and> length (fmt_05d k) = 5 \<and> list_all isdigit (fmt_05d k)
       \<and> int_of_digits (fmt_05d k) = k"
proof -
  let ?nums = "image_numbers imgs"
  note m = all_match_facts [OF assms(3)]
  have len: "length ?nums = length imgs" by (rule m(2))
  have nne: "?nums \<noteq> []" using assms(2) len by auto
  have srt: "sort ?nums = [k .. k + int (length ?nums) - 1]"
    using assms(4) len by (intro sort_of_run) simp
  have "0 < length ?nums" using nne by simp
  then have hd_k: "hd (sort ?nums) = k"
    unfolding srt by (subst upto.simps) simp
  have sne: "sort ?nums \<noteq> []" using nne by (simp add: sort_Nil_iff)
  have exp: "expected_sequence (sort ?nums) = sort ?nums"
    using expected_sequence_hd [OF sne] hd_k srt by simp
  have rng: "filter out_of_range (sort ?nums) = []"
    by (fastforce simp: filter_empty_conv out_of_range_def dest: image_numbers_range)
  have "k \<in> set ?nums"
    using assms(4) \<open>0 < length ?nums\<close> len by simp
  then have k: "0 \<le> k" "k \<le> 99999"
    using image_numbers_range by blast+
  have e: "numbering_errors ?nums = []"
    using nne exp rng by (simp add: numbering_errors_def)
  have w: "numbering_warnings ?nums = (if k = 0 then [] else [NotStartAtZero (fmt_05d k)])"
    using nne hd_k by (simp add: numbering_warnings_def)
  have b: "\<not> 1 < length (base_name_set imgs)"
    using base_name_set_single [OF m(3)] by simp
  show ?thesis
    using assms(1,2) m(1) e w b fmt_05d_props [OF k]
    by (simp add: check_image_files_archive Let_def)
qed

theorem contiguous_sequence_witness:
  "errors (check_image_files id
      (Archive \<lparr>namelist = [''config.ini'', ''part00004.png'', ''part00003.png'',
                             ''thumbnail/t.png'', ''part00005.JPG''],
                read_text = text_of []\<rparr>) (init ''job.sl1s'')) = []
   \<and> warnings (check_image_files id
      (Archive \<lparr>namelist = [''config.ini'', ''part00004.png'', ''part00003.png'',
                             ''thumbnail/t.png'', ''part00005.JPG''],
                read_text = text_of []\<rparr>) (init ''job.sl1s''))
     = [NotStartAtZero ''00003'']"
proof -
  let ?A = "\<lparr>namelist = [''config.ini'', ''part00004.png'', ''part00003.png'',
                         ''thumbnail/t.png'', ''part00005.JPG''],
              read_text = text_of []\<rparr>"
  let ?imgs = "[''part00004.png'', ''part00003.png'', ''part00005.JPG'']"
  have h1: "?imgs = filter is_layer_image (namelist ?A)" by code_simp
  have h2: "?imgs \<noteq> []" by simp
  have p: "name_pattern (basename ''part00004.png'') = Some (''part'', ''00004'', ''png'')"
    "name_pattern (basename ''part00003.png'') = Some (''part'', ''00003'', ''png'')"
    "name_pattern (basename ''part00005.JPG'') = Some (''part'', ''00005'', ''JPG'')"
    by code_simp+
  have h3: "\<forall>f \<in> set ?imgs. \<exists>d e. name_pattern (basename f) = Some (''part'', d, e)"
    using p by simp
  have n: "image_numbers ?imgs = [4, 3, 5]" by code_simp
  have h4: "set (image_numbers ?imgs) = {3 .. 3 + int (length ?imgs) - 1}"
    unfolding n by auto
  have f: "fmt_05d 3 = ''00003''" by code_simp
  show ?thesis
    using contiguous_sequence [OF h1 h2 h3 h4, of id "init ''job.sl1s''"] f
    by (simp add: init_def)
qed


lemma startswith_set: "startswith f p \<Longrightarrow> set p \<subseteq> set f"
  by (metis startswith_def set_take_subset)

lemma basename_no_slash: "\<not> has_slash f \<Longrightarrow> basename f = f"
proof -
  assume "\<not> has_slash f"
  then have "\<forall>c \<in> set (rev f). c \<noteq> CHR ''/''"
    by (auto simp: has_slash_def)
  then have "takeWhile (\<lambda>c. c \<noteq> CHR ''/'') (rev f) = rev f"
    by (simp only: takeWhile_eq_all_conv)
  then show ?thesis unfolding basename_def by (simp only: rev_rev_ident)
qed

lemma endswith_append: "endswith (xs @ e) e"
  by (simp add: endswith_def)

lemma lower_append: "lower (xs @ ys) = lower xs @ lower ys"
  by (simp add: lower_def)

lemma length_lower: "length (lower xs) = length xs"
  by (simp add: lower_def)

lemma match_ext_suffix:
  assumes "lower ext = ''.png'' \<or> lower ext = ''.jpg'' \<or> lower ext = ''.jpeg''"
  shows "match_ext (stem @ ext) = Some (length ext)"
proof -
  have l: "lower (stem @ ext) = lower stem @ lower ext" by (rule lower_append)
  from assms consider "lower ext = ''.png''" | "lower ext = ''.jpg''" | "lower ext = ''.jpeg''"
    by blast
  then show ?thesis
  proof cases
    case 1
    then have "length ext = 4" using length_lower [of ext] by simp
    then show ?thesis
      using 1 endswith_append [of "lower stem" "''.png''"] by (simp add: match_ext_def l)
  next
    case 2
    then have "length ext = 4" using length_lower [of ext] by simp
    then show ?thesis
      using 2 endswith_append [of "lower stem" "''.jpg''"] by (simp add: match_ext_def l)
  next
    case 3
    then have "length ext = 5" using length_lower [of ext] by simp
    moreover have "\<not> endswith (lower stem @ ''.jpeg'') ''.png''"
      "\<not> endswith (lower stem @ ''.jpeg'') ''.jpg''"
      by (simp_all add: endswith_def)
    ultimately show ?thesis
      using 3 endswith_append [of "lower stem" "''.jpeg''"] by (simp add: match_ext_def l)
  qed
qed

lemma ext_last_not_newline:
  assumes "lower ext = ''.png'' \<or> lower ext = ''.jpg'' \<or> lower ext = ''.jpeg''"
  shows "ext \<noteq> [] \<and> last ext \<noteq> CHR 0x0A"
proof -
  have ne: "ext \<noteq> []" using assms by (auto simp: lower_def)
  then have "last (lower ext) = lower_char (last ext)"
    by (simp add: lower_def last_map)
  moreover have "last (lower ext) = CHR ''g''" using assms by auto
  moreover have "lower_char (CHR 0x0A) = CHR 0x0A" by (simp add: lower_char_def)
  ultimately show ?thesis using ne by auto
qed

lemma name_pattern_parts:
  assumes "match_ext (p @ d5 @ ext) = Some (length ext)"
      and "ext \<noteq> []" and "last ext \<noteq> CHR 0x0A"
      and "length d5 = 5" and "list_all isdigit d5"
      and "rev (takeWhile (\<lambda>c. c \<noteq> CHR 0x0A) (rev p)) \<noteq> []"
  shows "name_pattern (p @ d5 @ ext)
       = Some (rev (takeWhile (\<lambda>c. c \<noteq> CHR 0x0A) (rev p)), d5, tl ext)"
proof -
  let ?s = "p @ d5 @ ext"
  have nl: "\<not> (?s \<noteq> [] \<and> last ?s = CHR 0x0A)"
    using assms(2,3) by simp
  have stem: "take (length ?s - length ext) ?s = p @ d5" by simp
  have e: "drop (length ?s - length ext + 1) ?s = tl ext"
    using assms(2) by (simp add: drop_Suc)
  have d: "drop (length (p @ d5) - 5) (p @ d5) = d5"
    "take (length (p @ d5) - 5) (p @ d5) = p"
    using assms(4) by simp_all
  have len: "5 \<le> length (p @ d5)" using assms(4) by simp
  show ?thesis
    unfolding name_pattern_def Let_def
    using nl assms(1,5,6) len
    by (simp only: if_False option.case stem e d) simp
qed

text \<open>
  Claim C10. A root-level name whose stem ends in more than five decimal digits,
  followed by one of the three extensions in any case, is a layer image and matches
  the pattern: the index group is the last five digits and the base-name group ends
  with the digits before them. The image stage appends no pattern error for it. It
  can bring in a second base name: next to \<^verbatim>\<open>foo00000.png\<close> the name
  \<^verbatim>\<open>foo123456.png\<close> has the base name \<^verbatim>\<open>foo1\<close>.
\<close>

theorem long_digit_run_matches:
  assumes "f = pre @ ds @ ext"
      and "list_all isdigit ds"
      and "5 < length ds"
      and "lower ext = ''.png'' \<or> lower ext = ''.jpg'' \<or> lower ext = ''.jpeg''"
      and "\<not> has_slash f"
  shows "is_layer_image f
     \<and> (\<exists>p. name_pattern (basename f) =
              Some (p @ take (length ds - 5) ds, drop (length ds - 5) ds, tl ext))
     \<and> (\<exists>new. errors (check_image_files set_iter (Archive a) st) = errors st @ new
              \<and> PatternMismatch f \<notin> set new)
     \<and> errors (check_image_files id
          (Archive \<lparr>namelist = [''foo00000.png'', ''foo123456.png''], read_text = text_of []\<rparr>)
          (init ''job.sl1s''))
        = [MultipleBaseNames [''foo'', ''foo1''], MissingNumbers [1]]"
proof -
  define d' where "d' = take (length ds - 5) ds"
  define d5 where "d5 = drop (length ds - 5) ds"
  let ?P = "\<lambda>c. c \<noteq> CHR 0x0A"
  have ds: "ds = d' @ d5" by (simp add: d'_def d5_def)
  have l5: "length d5 = 5" using assms(3) by (simp add: d5_def)
  have d'ne: "d' \<noteq> []" using assms(3) by (auto simp: d'_def)
  have dig5: "list_all isdigit d5"
    using assms(2) by (auto simp: d5_def list_all_iff dest: in_set_dropD)
  have "\<forall>c \<in> set d'. isdigit c"
    using assms(2) by (auto simp: d'_def list_all_iff dest: in_set_takeD)
  moreover have "\<not> isdigit (CHR 0x0A)" by (simp add: isdigit_def)
  ultimately have "\<forall>c \<in> set (rev d'). ?P c" by auto
  then have tw: "takeWhile ?P (rev d' @ rev pre) = rev d' @ takeWhile ?P (rev pre)"
    by (intro takeWhile_append2) auto
  then have base: "rev (takeWhile ?P (rev (pre @ d'))) = rev (takeWhile ?P (rev pre)) @ d'"
    by simp
  have f: "f = (pre @ d') @ d5 @ ext"
    using assms(1) ds by simp
  have me: "match_ext ((pre @ d') @ d5 @ ext) = Some (length ext)"
    using match_ext_suffix [OF assms(4), of "(pre @ d') @ d5"] by simp
  note en = ext_last_not_newline [OF assms(4)]
  have bne: "rev (takeWhile ?P (rev (pre @ d'))) \<noteq> []"
    unfolding base using d'ne by simp
  have "name_pattern ((pre @ d') @ d5 @ ext)
      = Some (rev (takeWhile ?P (rev (pre @ d'))), d5, tl ext)"
    by (rule name_pattern_parts [OF me en [THEN conjunct1] en [THEN conjunct2] l5 dig5 bne])
  then have np: "name_pattern f = Some (rev (takeWhile ?P (rev pre)) @ d', d5, tl ext)"
    unfolding base f .
  have bn: "basename f = f" using assms(5) by (rule basename_no_slash)
  have "match_ext f \<noteq> None" using me f by simp
  then have ends: "endswith (lower f) ''.png'' \<or> endswith (lower f) ''.jpg''
      \<or> endswith (lower f) ''.jpeg''"
    by (auto simp: match_ext_def split: if_splits)
  have "\<not> is_thumbnail_or_preview_file f"
  proof
    assume "is_thumbnail_or_preview_file f"
    then have "set ''thumbnail/'' \<subseteq> set f \<or> set ''preview/'' \<subseteq> set f"
      using startswith_set by (auto simp only: is_thumbnail_or_preview_file_def)
    then have "CHR ''/'' \<in> set f" by auto
    then show False using assms(5) by (simp add: has_slash_def)
  qed
  then have li: "is_layer_image f"
    using ends assms(5) by (simp add: is_layer_image_def)
  let ?imgs = "filter is_layer_image (namelist a)"
  have pe: "PatternMismatch f \<notin> set (pattern_errors imgs)" for imgs
    using np bn by (auto simp: pattern_errors_def)
  have ne: "PatternMismatch f \<notin> set (numbering_errors nums)" for nums
    by (auto simp: numbering_errors_def)
  have new: "\<exists>new. errors (check_image_files set_iter (Archive a) st) = errors st @ new
              \<and> PatternMismatch f \<notin> set new"
  proof (cases "?imgs = []")
    case True
    then show ?thesis by (simp add: check_image_files_archive)
  next
    case False
    then have "errors (check_image_files set_iter (Archive a) st) = errors st @
        (pattern_errors ?imgs
         @ (if length (base_name_set ?imgs) > 1
            then [MultipleBaseNames (set_iter (base_name_set ?imgs))] else [])
         @ numbering_errors (image_numbers ?imgs))"
      by (simp add: check_image_files_archive Let_def)
    moreover have "PatternMismatch f \<notin> set (pattern_errors ?imgs
         @ (if length (base_name_set ?imgs) > 1
            then [MultipleBaseNames (set_iter (base_name_set ?imgs))] else [])
         @ numbering_errors (image_numbers ?imgs))"
      using pe ne by simp
    ultimately show ?thesis by blast
  qed
  have ex: "errors (check_image_files id
          (Archive \<lparr>namelist = [''foo00000.png'', ''foo123456.png''], read_text = text_of []\<rparr>)
          (init ''job.sl1s''))
        = [MultipleBaseNames [''foo'', ''foo1''], MissingNumbers [1]]"
    by code_simp
  show ?thesis
    using li np bn new ex unfolding d'_def d5_def by auto
qed

theorem long_digit_run_matches_witness:
  "is_layer_image ''foo123456.png''
   \<and> name_pattern (basename ''foo123456.png'') = Some (''foo1'', ''23456'', ''png'')
   \<and> name_pattern (basename ''foo00000.png'') = Some (''foo'', ''00000'', ''png'')"
proof -
  have h1: "''foo123456.png'' = ''foo'' @ ''123456'' @ ''.png''" by simp
  have h2: "list_all isdigit ''123456''" by (simp add: isdigit_def)
  have h3: "5 < length ''123456''" by simp
  have h4: "lower ''.png'' = ''.png'' \<or> lower ''.png'' = ''.jpg'' \<or> lower ''.png'' = ''.jpeg''"
    by (simp add: lower_def lower_char_def)
  have h5: "\<not> has_slash ''foo123456.png''" by (simp add: has_slash_def)
  have n: "name_pattern (basename ''foo123456.png'') = Some (''foo1'', ''23456'', ''png'')"
    "name_pattern (basename ''foo00000.png'') = Some (''foo'', ''00000'', ''png'')"
    by code_simp+
  show ?thesis
    using long_digit_run_matches [OF h1 h2 h3 h4 h5] n by simp
qed

section \<open>The consistency stage\<close>

lemma check_job_dir_eq:
  "check_job_dir job_dir st = st\<lparr>errors := errors st @ job_dir_errors job_dir (image_files st)\<rparr>"
  by (simp add: check_job_dir_def job_dir_errors_def add_error_def Let_def
      split: option.splits list.splits)

lemma image_numbers_Nil [simp]: "image_numbers [] = []"
  by (simp add: image_numbers_def)

lemma check_num_fast_eq:
  "check_num_fast num_fast_str st =
     st\<lparr>errors := errors st @ num_fast_errors num_fast_str (image_files st)\<rparr>"
  by (cases "image_numbers (image_files st)")
     (auto simp: check_num_fast_def num_fast_errors_def add_error_def Let_def
      split: option.splits list.splits)

lemma check_config_consistency_eq:
  assumes "config st = Some cp"
  shows "check_config_consistency st =
     st\<lparr>errors := errors st @
        (case get_config_value (Some cp) ''layerRenderParams'' ''jobDir'' of
           Inl e \<Rightarrow> [ErrorCheckingConsistency e]
         | Inr job_dir \<Rightarrow>
             job_dir_errors job_dir (image_files st)
             @ (case get_config_value (Some cp) ''layerRenderParams'' ''numFast'' of
                  Inl e \<Rightarrow> [ErrorCheckingConsistency e]
                | Inr num_fast_str \<Rightarrow> num_fast_errors num_fast_str (image_files st)))\<rparr>"
  using assms
  by (simp add: check_config_consistency_def cp_len_def check_job_dir_eq check_num_fast_eq
      add_error_def Let_def split: sum.splits)


lemma filter_mismatch_simps [simp]:
  "is_base_name_mismatch (BaseNameMismatch x y)"
  "\<not> is_base_name_mismatch (ErrorCheckingConsistency e)"
  "filter is_base_name_mismatch (num_fast_errors v imgs) = []"
  by (auto simp: is_base_name_mismatch_def num_fast_errors_def split: option.splits)







section \<open>Dependence on the iteration order of sets\<close>

lemma same_up_to_order_refl [simp]: "same_up_to_order m m"
  by (simp add: same_up_to_order_def)

lemma list_all2_same_refl [simp]: "list_all2 same_up_to_order xs xs"
  by (simp add: list_all2_refl)

lemma agree_append:
  assumes "agree s1 s2" and "list_all2 same_up_to_order e1 e2"
  shows "agree (s1\<lparr>errors := errors s1 @ e1, warnings := warnings s1 @ w\<rparr>)
               (s2\<lparr>errors := errors s2 @ e2, warnings := warnings s2 @ w\<rparr>)"
proof -
  from assms(1) obtain w1 w2 rest where
    w: "warnings s1 = map SubfolderWarning w1 @ rest"
       "warnings s2 = map SubfolderWarning w2 @ rest" "mset w1 = mset w2"
    unfolding agree_def by blast
  then have "warnings s1 @ w = map SubfolderWarning w1 @ (rest @ w)"
    "warnings s2 @ w = map SubfolderWarning w2 @ (rest @ w)"
    by simp_all
  then have "\<exists>w1 w2 rest. warnings s1 @ w = map SubfolderWarning w1 @ rest
                       \<and> warnings s2 @ w = map SubfolderWarning w2 @ rest
                       \<and> mset w1 = mset w2"
    using w(3) by blast
  then show ?thesis
    using assms by (simp add: agree_def list_all2_appendI)
qed

lemma agree_add_error: "agree s1 s2 \<Longrightarrow> agree (add_error s1 m) (add_error s2 m)"
  using agree_append [of s1 s2 "[m]" "[m]" "[]"] by (simp add: add_error_def)

lemma agree_add_warning: "agree s1 s2 \<Longrightarrow> agree (add_warning s1 m) (add_warning s2 m)"
  using agree_append [of s1 s2 "[]" "[]" "[m]"] by (simp add: add_warning_def)

lemma agree_config: "agree s1 s2 \<Longrightarrow> agree (s1\<lparr>config := c\<rparr>) (s2\<lparr>config := c\<rparr>)"
  by (simp add: agree_def)

lemma agree_image_files:
  "agree s1 s2 \<Longrightarrow> agree (s1\<lparr>image_files := i\<rparr>) (s2\<lparr>image_files := i\<rparr>)"
  by (simp add: agree_def)

lemma agree_fields:
  "agree s1 s2 \<Longrightarrow> config s1 = config s2 \<and> image_files s1 = image_files s2"
  by (simp add: agree_def)

lemma agree_required_files:
  assumes "agree s1 s2"
  shows "agree (check_required_files fs s1) (check_required_files fs s2)"
proof (cases "open_zip fs")
  case (Inl e)
  then show ?thesis using assms by (simp add: check_required_files_def agree_add_error)
next
  case (Inr zip_ref)
  have "agree (foldl (\<lambda>s required_file.
                   if \<not> found_required (namelist zip_ref) required_file
                   then add_error s (RequiredFileMissing required_file) else s) s1 xs)
              (foldl (\<lambda>s required_file.
                   if \<not> found_required (namelist zip_ref) required_file
                   then add_error s (RequiredFileMissing required_file) else s) s2 xs)" for xs
    using assms by (induction xs arbitrary: s1 s2) (simp_all add: agree_add_error)
  then show ?thesis using Inr by (simp add: check_required_files_def)
qed

lemma agree_extract_config:
  assumes "agree s1 s2"
  shows "agree (extract_config fs s1) (extract_config fs s2)"
  using assms
  by (auto simp: extract_config_def agree_add_error agree_config
      split: sum.splits list.splits prod.splits option.splits py_exn.splits)

lemma agree_image_stage:
  assumes "agree s1 s2" and "iteration_order it1" and "iteration_order it2"
  shows "agree (check_image_files it1 fs s1) (check_image_files it2 fs s2)"
proof (cases "open_zip fs")
  case (Inl e)
  then show ?thesis using assms(1) by (simp add: check_image_files_def agree_add_error)
next
  case (Inr a)
  then have fs: "fs = Archive a" by (cases fs) simp_all
  let ?imgs = "filter is_layer_image (namelist a)"
  show ?thesis
  proof (cases "?imgs = []")
    case True
    have "agree (add_warning (s1\<lparr>image_files := []\<rparr>) NoLayerImages)
                (add_warning (s2\<lparr>image_files := []\<rparr>) NoLayerImages)"
      using assms(1) by (intro agree_add_warning agree_image_files)
    then show ?thesis
      using True by (simp add: fs check_image_files_archive add_warning_def)
  next
    case False
    let ?e = "\<lambda>it. pattern_errors ?imgs
        @ (if length (base_name_set ?imgs) > 1
           then [MultipleBaseNames (it (base_name_set ?imgs))] else [])
        @ numbering_errors (image_numbers ?imgs)"
    have "mset (it1 (base_name_set ?imgs)) = mset (it2 (base_name_set ?imgs))"
      using assms(2,3) by (simp add: iteration_order_def)
    then have "same_up_to_order (MultipleBaseNames (it1 (base_name_set ?imgs)))
        (MultipleBaseNames (it2 (base_name_set ?imgs)))"
      by (simp add: same_up_to_order_def)
    then have l: "list_all2 same_up_to_order (?e it1) (?e it2)"
      by (intro list_all2_appendI) simp_all
    have "agree ((s1\<lparr>image_files := ?imgs\<rparr>)
               \<lparr>errors := errors (s1\<lparr>image_files := ?imgs\<rparr>) @ ?e it1,
                warnings := warnings (s1\<lparr>image_files := ?imgs\<rparr>)
                  @ numbering_warnings (image_numbers ?imgs)\<rparr>)
             ((s2\<lparr>image_files := ?imgs\<rparr>)
               \<lparr>errors := errors (s2\<lparr>image_files := ?imgs\<rparr>) @ ?e it2,
                warnings := warnings (s2\<lparr>image_files := ?imgs\<rparr>)
                  @ numbering_warnings (image_numbers ?imgs)\<rparr>)"
      using assms(1) l by (intro agree_append agree_image_files)
    then show ?thesis
      using False by (simp add: fs check_image_files_archive Let_def)
  qed
qed

lemma agree_consistency:
  assumes "agree s1 s2"
  shows "agree (check_config_consistency s1) (check_config_consistency s2)"
proof (cases "config s1")
  case None
  then have "config s2 = None" using assms agree_fields by metis
  then show ?thesis using None assms by (simp add: check_config_consistency_def)
next
  case (Some cp)
  then have c2: "config s2 = Some cp" using assms agree_fields by metis
  have i: "image_files s1 = image_files s2" using assms agree_fields by metis
  let ?e = "case get_config_value (Some cp) ''layerRenderParams'' ''jobDir'' of
           Inl e \<Rightarrow> [ErrorCheckingConsistency e]
         | Inr job_dir \<Rightarrow>
             job_dir_errors job_dir (image_files s2)
             @ (case get_config_value (Some cp) ''layerRenderParams'' ''numFast'' of
                  Inl e \<Rightarrow> [ErrorCheckingConsistency e]
                | Inr num_fast_str \<Rightarrow> num_fast_errors num_fast_str (image_files s2))"
  have "agree (s1\<lparr>errors := errors s1 @ ?e, warnings := warnings s1 @ []\<rparr>)
              (s2\<lparr>errors := errors s2 @ ?e, warnings := warnings s2 @ []\<rparr>)"
    using assms by (intro agree_append) simp_all
  then show ?thesis
    unfolding check_config_consistency_eq [OF Some] check_config_consistency_eq [OF c2] i
    by simp
qed

lemma agree_zip_structure:
  assumes "iteration_order it1" and "iteration_order it2" and "warnings st = []"
  shows "agree (check_zip_structure it1 fs st) (check_zip_structure it2 fs st)"
proof (cases "open_zip fs")
  case (Inl e)
  have "agree st st" using assms(3) by (simp add: agree_def)
  then have "agree (add_error st m) (add_error st m)" for m
    by (rule agree_add_error)
  then show ?thesis
    using Inl by (cases e) (simp_all add: check_zip_structure_def)
next
  case (Inr a)
  then have fs: "fs = Archive a" by (cases fs) simp_all
  have "mset (it1 (folders (namelist a))) = mset (it2 (folders (namelist a)))"
    using assms(1,2) by (simp add: iteration_order_def)
  then have "\<exists>w1 w2 rest.
      map SubfolderWarning (it1 (folders (namelist a))) = map SubfolderWarning w1 @ rest
      \<and> map SubfolderWarning (it2 (folders (namelist a))) = map SubfolderWarning w2 @ rest
      \<and> mset w1 = mset w2"
    by (intro exI [of _ "it1 (folders (namelist a))"] exI [of _ "it2 (folders (namelist a))"]
        exI [of _ "[]"]) simp
  moreover have "\<exists>w1 w2 rest. [] = map SubfolderWarning w1 @ rest
      \<and> [] = map SubfolderWarning w2 @ rest \<and> mset w1 = mset w2"
    by simp
  ultimately show ?thesis
    using assms(3) by (simp add: fs check_zip_structure_archive agree_def)
qed

text \<open>
  Claim C9, as amended. The run is a function of the archive and of the order in which
  sets are iterated. Two runs on the same path and file, under any two iteration
  orders, either raise the same exception or end in states that agree up to that
  order: the error sequences have the same length and are equal position by position,
  except that a multiple-base-names message may list the same names in another order;
  the warning sequences are equal except that the subfolder warnings, which come
  first, may be permuted among themselves.
\<close>

theorem runs_agree_up_to_set_order:
  assumes "iteration_order it1" and "iteration_order it2"
  shows "rel_sum (=) agree (validate_sl1s_file it1 path fs) (validate_sl1s_file it2 path fs)"
proof (cases "check_file_exists fs (init path)")
  case (Inl e)
  then show ?thesis by (simp add: validate_sl1s_file_def)
next
  case (Inr st0)
  have w0: "warnings st0 = []"
    using Inr by (auto simp: check_file_exists_def init_def split: file_state.splits)
  show ?thesis
  proof (cases "errors st0 = []")
    case False
    have "agree st0 st0" using w0 by (simp add: agree_def)
    then show ?thesis using Inr False by (simp add: validate_sl1s_file_def)
  next
    case True
    have "agree (check_zip_structure it1 fs st0) (check_zip_structure it2 fs st0)"
      using assms w0 by (rule agree_zip_structure)
    then have "agree (check_required_files fs (check_zip_structure it1 fs st0))
        (check_required_files fs (check_zip_structure it2 fs st0))"
      by (rule agree_required_files)
    then have "agree (extract_config fs (check_required_files fs (check_zip_structure it1 fs st0)))
        (extract_config fs (check_required_files fs (check_zip_structure it2 fs st0)))"
      by (rule agree_extract_config)
    then have "agree
        (check_image_files it1 fs
          (extract_config fs (check_required_files fs (check_zip_structure it1 fs st0))))
        (check_image_files it2 fs
          (extract_config fs (check_required_files fs (check_zip_structure it2 fs st0))))"
      using assms by (rule agree_image_stage)
    then have "agree
        (check_config_consistency (check_image_files it1 fs
          (extract_config fs (check_required_files fs (check_zip_structure it1 fs st0)))))
        (check_config_consistency (check_image_files it2 fs
          (extract_config fs (check_required_files fs (check_zip_structure it2 fs st0)))))"
      by (rule agree_consistency)
    then show ?thesis
      using Inr True by (simp add: validate_sl1s_file_def Let_def)
  qed
qed

theorem runs_agree_up_to_set_order_witness:
  "iteration_order id \<and> iteration_order rev
   \<and> rel_sum (=) agree
        (validate_sl1s_file id ''job.sl1s''
          (Archive \<lparr>namelist = [''a/config.ini'', ''b/prusaslicer.ini'', ''p00000.png'',
                                 ''q00001.png''],
                    read_text = text_of [(''a/config.ini'',
                      [Header ''layerRenderParams'', Option ''numFast'' ''2''])]\<rparr>))
        (validate_sl1s_file rev ''job.sl1s''
          (Archive \<lparr>namelist = [''a/config.ini'', ''b/prusaslicer.ini'', ''p00000.png'',
                                 ''q00001.png''],
                    read_text = text_of [(''a/config.ini'',
                      [Header ''layerRenderParams'', Option ''numFast'' ''2''])]\<rparr>))"
proof -
  have h1: "iteration_order id" by (simp add: iteration_order_def)
  have h2: "iteration_order rev" by (simp add: iteration_order_def)
  show ?thesis
    using h1 h2 runs_agree_up_to_set_order [OF h1 h2] by simp
qed

text \<open>
  Claim C9 as stated fails: on one archive with two subfolders and two base names, two
  iteration orders give the subfolder warnings in different orders and different
  texts of the multiple-base-names error.
\<close>

theorem set_order_counterexample:
  "iteration_order id \<and> iteration_order rev
   \<and> map_sum id warnings (validate_sl1s_file id ''job.sl1s''
        (Archive \<lparr>namelist = [''a/config.ini'', ''b/prusaslicer.ini'', ''p00000.png'',
                               ''q00001.png''],
                  read_text = text_of [(''a/config.ini'',
                    [Header ''layerRenderParams'', Option ''numFast'' ''2''])]\<rparr>))
       = Inr [SubfolderWarning ''a'', SubfolderWarning ''b'']
   \<and> map_sum id warnings (validate_sl1s_file rev ''job.sl1s''
        (Archive \<lparr>namelist = [''a/config.ini'', ''b/prusaslicer.ini'', ''p00000.png'',
                               ''q00001.png''],
                  read_text = text_of [(''a/config.ini'',
                    [Header ''layerRenderParams'', Option ''numFast'' ''2''])]\<rparr>))
       = Inr [SubfolderWarning ''b'', SubfolderWarning ''a'']
   \<and> map_sum id errors (validate_sl1s_file id ''job.sl1s''
        (Archive \<lparr>namelist = [''a/config.ini'', ''b/prusaslicer.ini'', ''p00000.png'',
                               ''q00001.png''],
                  read_text = text_of [(''a/config.ini'',
                    [Header ''layerRenderParams'', Option ''numFast'' ''2''])]\<rparr>))
       = Inr [MultipleBaseNames [''p'', ''q'']]
   \<and> map_sum id errors (validate_sl1s_file rev ''job.sl1s''
        (Archive \<lparr>namelist = [''a/config.ini'', ''b/prusaslicer.ini'', ''p00000.png'',
                               ''q00001.png''],
                  read_text = text_of [(''a/config.ini'',
                    [Header ''layerRenderParams'', Option ''numFast'' ''2''])]\<rparr>))
       = Inr [MultipleBaseNames [''q'', ''p'']]"
proof -
  have "iteration_order id" "iteration_order rev"
    by (simp_all add: iteration_order_def)
  moreover have "map_sum id warnings (validate_sl1s_file id ''job.sl1s''
        (Archive \<lparr>namelist = [''a/config.ini'', ''b/prusaslicer.ini'', ''p00000.png'',
                               ''q00001.png''],
                  read_text = text_of [(''a/config.ini'',
                    [Header ''layerRenderParams'', Option ''numFast'' ''2''])]\<rparr>))
       = Inr [SubfolderWarning ''a'', SubfolderWarning ''b'']"
    by code_simp
  moreover have "map_sum id warnings (validate_sl1s_file rev ''job.sl1s''
        (Archive \<lparr>namelist = [''a/config.ini'', ''b/prusaslicer.ini'', ''p00000.png'',
                               ''q00001.png''],
                  read_text = text_of [(''a/config.ini'',
                    [Header ''layerRenderParams'', Option ''numFast'' ''2''])]\<rparr>))
       = Inr [SubfolderWarning ''b'', SubfolderWarning ''a'']"
    by code_simp
  moreover have "map_sum id errors (validate_sl1s_file id ''job.sl1s''
        (Archive \<lparr>namelist = [''a/config.ini'', ''b/prusaslicer.ini'', ''p00000.png'',
                               ''q00001.png''],
                  read_text = text_of [(''a/config.ini'',
                    [Header ''layerRenderParams'', Option ''numFast'' ''2''])]\<rparr>))
       = Inr [MultipleBaseNames [''p'', ''q'']]"
    by code_simp
  moreover have "map_sum id errors (validate_sl1s_file rev ''job.sl1s''
        (Archive \<lparr>namelist = [''a/config.ini'', ''b/prusaslicer.ini'', ''p00000.png'',
                               ''q00001.png''],
                  read_text = text_of [(''a/config.ini'',
                    [Header ''layerRenderParams'', Option ''numFast'' ''2''])]\<rparr>))
       = Inr [MultipleBaseNames [''q'', ''p'']]"
    by code_simp
  ultimately show ?thesis by blast
qed

end
